theory Spec2Isabelle
  imports Main "HOL-Library.Sublist" "HOL-Library.Log_Nat"
begin

section \<open>JavaScript strings\<close>

text \<open>
  Strings are lists of bytes (UTF-8). The functions below are the ones the extension
  calls on strings: template-literal concatenation is \<open>@\<close>, the others are spelled
  out.
\<close>

definition dquote :: char where
  "dquote = CHR 0x22"

text \<open>The text \<^verbatim>\<open>"${p}"\<close>: a path between double quotes.\<close>

definition quoted :: "string \<Rightarrow> string" where
  "quoted p = dquote # p @ [dquote]"

text \<open>
  \<open>String.prototype.trim\<close> strips the WhiteSpace and LineTerminator code points from
  both ends. In UTF-8 these are six single bytes (tab, line feed, vertical tab, form
  feed, carriage return, space), one sequence of two bytes (U+00A0) and the sequences
  of three bytes for U+1680, U+2000 to U+200A, U+2028, U+2029, U+202F, U+205F, U+3000
  and U+FEFF.
\<close>

definition js_whitespace :: "char \<Rightarrow> bool" where
  "js_whitespace c \<longleftrightarrow> c \<in> {CHR '' '', CHR 0x09, CHR 0x0A, CHR 0x0B, CHR 0x0C, CHR 0x0D}"

definition js_whitespace2 :: "char \<Rightarrow> char \<Rightarrow> bool" where
  "js_whitespace2 a b \<longleftrightarrow> a = CHR 0xC2 \<and> b = CHR 0xA0"

definition js_whitespace3 :: "char \<Rightarrow> char \<Rightarrow> char \<Rightarrow> bool" where
  "js_whitespace3 a b c \<longleftrightarrow>
     (a = CHR 0xE1 \<and> b = CHR 0x9A \<and> c = CHR 0x80)
     \<or> (a = CHR 0xE2 \<and> b = CHR 0x80
          \<and> ((0x80 \<le> (of_char c :: nat) \<and> (of_char c :: nat) \<le> 0x8A)
               \<or> c = CHR 0xA8 \<or> c = CHR 0xA9 \<or> c = CHR 0xAF))
     \<or> (a = CHR 0xE2 \<and> b = CHR 0x81 \<and> c = CHR 0x9F)
     \<or> (a = CHR 0xE3 \<and> b = CHR 0x80 \<and> c = CHR 0x80)
     \<or> (a = CHR 0xEF \<and> b = CHR 0xBB \<and> c = CHR 0xBF)"

text \<open>
  Removing the white space at the head of a string, for given tests of one, two and
  three bytes; the end of a string is its head read backwards.
\<close>

fun strip_white ::
  "(char \<Rightarrow> bool) \<Rightarrow> (char \<Rightarrow> char \<Rightarrow> bool) \<Rightarrow> (char \<Rightarrow> char \<Rightarrow> char \<Rightarrow> bool) \<Rightarrow> string \<Rightarrow> string" where
  "strip_white w1 w2 w3 (a # b # c # s) =
     (if w1 a then strip_white w1 w2 w3 (b # c # s)
      else if w2 a b then strip_white w1 w2 w3 (c # s)
      else if w3 a b c then strip_white w1 w2 w3 s
      else a # b # c # s)"
| "strip_white w1 w2 w3 [a, b] =
     (if w1 a then strip_white w1 w2 w3 [b] else if w2 a b then [] else [a, b])"
| "strip_white w1 w2 w3 [a] = (if w1 a then [] else [a])"
| "strip_white w1 w2 w3 [] = []"

definition trimStart :: "string \<Rightarrow> string" where
  "trimStart s = strip_white js_whitespace js_whitespace2 js_whitespace3 s"

definition trimEnd :: "string \<Rightarrow> string" where
  "trimEnd s =
     rev (strip_white js_whitespace (\<lambda>a b. js_whitespace2 b a) (\<lambda>a b c. js_whitespace3 c b a) (rev s))"

definition trim :: "string \<Rightarrow> string" where
  "trim s = trimEnd (trimStart s)"

text \<open>\<open>s.slice(a, b)\<close> for \<open>0 \<le> a\<close>, \<open>0 \<le> b\<close>: empty when \<open>b \<le> a\<close>.\<close>

definition slice :: "string \<Rightarrow> nat \<Rightarrow> nat \<Rightarrow> string" where
  "slice s a b = take (b - a) (drop a s)"

definition endsWith :: "string \<Rightarrow> string \<Rightarrow> bool" where
  "endsWith s t \<longleftrightarrow> length t \<le> length s \<and> drop (length s - length t) s = t"

fun js_includes :: "string \<Rightarrow> string \<Rightarrow> bool" where
  "js_includes [] t = (t = [])"
| "js_includes (c # s) t = (take (length t) (c # s) = t \<or> js_includes s t)"

text \<open>\<open>toLowerCase\<close> on the ASCII letters; bytes of other code points are kept.\<close>

definition lower_char :: "char \<Rightarrow> char" where
  "lower_char c = (let n = (of_char c :: nat) in if 65 \<le> n \<and> n \<le> 90 then char_of (n + 32) else c)"

definition toLowerCase :: "string \<Rightarrow> string" where
  "toLowerCase s = map lower_char s"

text \<open>The decimal text of a non-negative integer, as a template literal prints it.\<close>

definition digit_char :: "nat \<Rightarrow> char" where
  "digit_char d = char_of (48 + d)"

fun show_nat :: "nat \<Rightarrow> string" where
  "show_nat n = (if n < 10 then [digit_char n] else show_nat (n div 10) @ [digit_char (n mod 10)])"

declare show_nat.simps [simp del]

section \<open>Path functions of the platform (POSIX flavour of Node's \<open>path\<close>)\<close>

text \<open>
  The extension runs on macOS, so \<open>path\<close> is \<open>path.posix\<close>. The functions follow the
  library's loops: \<open>basename\<close> and \<open>dirname\<close> scan the path from its last character
  towards the first, and a loop that leaves with \<open>break\<close> returns its state at once.
\<close>

definition slash :: char where
  "slash = CHR ''/''"

text \<open>
  \<open>basename(path)\<close>. State: \<open>(start, end, matchedSlash)\<close>, with \<open>end = -1\<close> while no
  character of the last component has been seen. The counter is \<open>i + 1\<close>.
\<close>

fun basename_loop :: "string \<Rightarrow> nat \<Rightarrow> nat \<times> int \<times> bool \<Rightarrow> nat \<times> int \<times> bool" where
  "basename_loop path 0 st = st"
| "basename_loop path (Suc i) (start, end, matchedSlash) =
     (if path ! i = slash then
        (if \<not> matchedSlash then (i + 1, end, matchedSlash)
         else basename_loop path i (start, end, matchedSlash))
      else if end = -1 then basename_loop path i (start, int i + 1, False)
      else basename_loop path i (start, end, matchedSlash))"

definition basename :: "string \<Rightarrow> string" where
  "basename path =
     (case basename_loop path (length path) (0, -1, True) of
        (start, end, matchedSlash) \<Rightarrow> if end = -1 then [] else slice path start (nat end))"

text \<open>
  \<open>basename(path, ext)\<close>. State:
  \<open>(start, end, matchedSlash, extIdx, firstNonSlashEnd)\<close>.
\<close>

fun basename_ext_loop ::
  "string \<Rightarrow> string \<Rightarrow> nat \<Rightarrow> nat \<times> int \<times> bool \<times> int \<times> int \<Rightarrow> nat \<times> int \<times> bool \<times> int \<times> int" where
  "basename_ext_loop path ext 0 st = st"
| "basename_ext_loop path ext (Suc i) (start, end, matchedSlash, extIdx, firstNonSlashEnd) =
     (if path ! i = slash then
        (if \<not> matchedSlash then (i + 1, end, matchedSlash, extIdx, firstNonSlashEnd)
         else basename_ext_loop path ext i (start, end, matchedSlash, extIdx, firstNonSlashEnd))
      else
        (let matchedSlash' = (if firstNonSlashEnd = -1 then False else matchedSlash);
             firstNonSlashEnd' = (if firstNonSlashEnd = -1 then int i + 1 else firstNonSlashEnd)
         in if 0 \<le> extIdx then
              (if path ! i = ext ! nat extIdx then
                 (if extIdx - 1 = -1
                  then basename_ext_loop path ext i (start, int i, matchedSlash', -1, firstNonSlashEnd')
                  else basename_ext_loop path ext i (start, end, matchedSlash', extIdx - 1, firstNonSlashEnd'))
               else basename_ext_loop path ext i (start, firstNonSlashEnd', matchedSlash', -1, firstNonSlashEnd'))
            else basename_ext_loop path ext i (start, end, matchedSlash', extIdx, firstNonSlashEnd')))"

definition basename_ext :: "string \<Rightarrow> string \<Rightarrow> string" where
  "basename_ext path ext =
     (if 0 < length ext \<and> length ext \<le> length path then
        (if ext = path then []
         else
           (case basename_ext_loop path ext (length path) (0, -1, True, int (length ext) - 1, -1) of
              (start, end, matchedSlash, extIdx, firstNonSlashEnd) \<Rightarrow>
                (let end' = (if int start = end then firstNonSlashEnd
                             else if end = -1 then int (length path) else end)
                 in slice path start (nat end'))))
      else basename path)"

text \<open>
  \<open>dirname(path)\<close>. The loop visits the indices \<open>length - 1\<close> down to \<open>1\<close>; the counter
  is the index itself. State: \<open>(end, matchedSlash)\<close>.
\<close>

fun dirname_loop :: "string \<Rightarrow> nat \<Rightarrow> int \<times> bool \<Rightarrow> int \<times> bool" where
  "dirname_loop path 0 st = st"
| "dirname_loop path (Suc i) (end, matchedSlash) =
     (if path ! Suc i = slash then
        (if \<not> matchedSlash then (int (Suc i), matchedSlash)
         else dirname_loop path i (end, matchedSlash))
      else dirname_loop path i (end, False))"

definition dirname :: "string \<Rightarrow> string" where
  "dirname path =
     (if path = [] then ''.''
      else
        (let hasRoot = (path ! 0 = slash) in
         case dirname_loop path (length path - 1) (-1, True) of
           (end, matchedSlash) \<Rightarrow>
             if end = -1 then (if hasRoot then ''/'' else ''.'')
             else if hasRoot \<and> end = 1 then ''//''
             else slice path 0 (nat end)))"

text \<open>
  \<open>normalizeString(path, allowAboveRoot)\<close> acts only when it meets a separator (or the end
  of a path that does not end with one); between two separators it counts dots. It is
  therefore written as one step per segment, on the result string \<open>res\<close> and
  \<open>lastSegmentLength\<close>: an empty segment and \<open>.\<close> change nothing, \<open>..\<close> removes the last
  segment of \<open>res\<close> (or is kept, above the root of a relative path), every other segment
  is appended.
\<close>

fun split_slash :: "string \<Rightarrow> string list" where
  "split_slash [] = [[]]"
| "split_slash (c # cs) =
     (if c = slash then [] # split_slash cs
      else (case split_slash cs of seg # segs \<Rightarrow> (c # seg) # segs | [] \<Rightarrow> [[c]]))"

text \<open>\<open>res.lastIndexOf("/")\<close>, \<open>None\<close> for \<open>-1\<close>.\<close>

fun lastIndexOf_slash :: "string \<Rightarrow> nat option" where
  "lastIndexOf_slash [] = None"
| "lastIndexOf_slash (c # cs) =
     (case lastIndexOf_slash cs of
        Some k \<Rightarrow> Some (Suc k)
      | None \<Rightarrow> if c = slash then Some 0 else None)"

definition normalize_segment :: "bool \<Rightarrow> string \<times> nat \<Rightarrow> string \<Rightarrow> string \<times> nat" where
  "normalize_segment allowAboveRoot st seg =
     (case st of (res, lastSegmentLength) \<Rightarrow>
        (let aboveRoot =
               (if allowAboveRoot then (res @ (if res \<noteq> [] then ''/..'' else ''..''), 2)
                else (res, lastSegmentLength))
         in if seg = [] \<or> seg = ''.'' then (res, lastSegmentLength)
            else if seg = ''..'' then
              (if length res < 2 \<or> lastSegmentLength \<noteq> 2 \<or> \<not> endsWith res ''..'' then
                 (if 2 < length res then
                    (case lastIndexOf_slash res of
                       None \<Rightarrow> ([], 0)
                     | Some k \<Rightarrow>
                         (let res' = take k res in
                          (res', (case lastIndexOf_slash res' of
                                    None \<Rightarrow> length res'
                                  | Some j \<Rightarrow> length res' - 1 - j))))
                  else if res \<noteq> [] then ([], 0)
                  else aboveRoot)
               else aboveRoot)
            else ((if res \<noteq> [] then res @ ''/'' @ seg else seg), length seg)))"

definition normalizeString :: "string \<Rightarrow> bool \<Rightarrow> string" where
  "normalizeString path allowAboveRoot =
     fst (foldl (normalize_segment allowAboveRoot) ([], 0) (split_slash path))"

definition normalize :: "string \<Rightarrow> string" where
  "normalize path =
     (if path = [] then ''.''
      else
        (let isAbsolute = (path ! 0 = slash);
             trailingSeparator = (last path = slash);
             res = normalizeString path (\<not> isAbsolute)
         in if res = [] then (if isAbsolute then ''/'' else if trailingSeparator then ''./'' else ''.'')
            else (if isAbsolute then ''/'' else []) @ res @ (if trailingSeparator then ''/'' else [])))"

text \<open>\<open>join(...args)\<close>: the non-empty arguments, separated by \<open>/\<close>, then normalised.\<close>

fun join_args :: "string list \<Rightarrow> string option \<Rightarrow> string option" where
  "join_args [] joined = joined"
| "join_args (arg # args) joined =
     join_args args
       (if arg \<noteq> [] then (case joined of None \<Rightarrow> Some arg | Some j \<Rightarrow> Some (j @ ''/'' @ arg))
        else joined)"

definition path_join :: "string list \<Rightarrow> string" where
  "path_join args = (case join_args args None of None \<Rightarrow> ''.'' | Some joined \<Rightarrow> normalize joined)"

section \<open>JavaScript numbers\<close>

text \<open>
  A Number is a finite double, NaN or an infinity. Finite values are carried as the
  rational they denote; the results of arithmetic are rounded to the nearest double
  (ties to even) by \<open>round_double\<close>. Negative zero is not represented, and the exponent
  range is not bounded: every finite value in this program is a quotient or a small
  multiple of byte counts, far from overflow and underflow.
\<close>

datatype jsnum = Fin rat | NaN | PosInf | NegInf

definition pow2 :: "int \<Rightarrow> rat" where
  "pow2 e = (if 0 \<le> e then 2 ^ nat e else 1 / 2 ^ nat (- e))"

definition round_half_even :: "rat \<Rightarrow> int" where
  "round_half_even x =
     (let f = \<lfloor>x\<rfloor>; d = x - of_int f
      in if d < 1 / 2 then f else if 1 / 2 < d then f + 1 else if even f then f else f + 1)"

text \<open>The exponent \<open>e\<close> with \<open>2 ^ e \<le> a < 2 ^ (e + 1)\<close>, for \<open>a > 0\<close>.\<close>

definition binary_exponent :: "rat \<Rightarrow> int" where
  "binary_exponent a =
     (case quotient_of a of (p, q) \<Rightarrow>
        (let e0 = bitlen p - bitlen q in if pow2 e0 \<le> a then e0 else e0 - 1))"

definition round_double :: "rat \<Rightarrow> rat" where
  "round_double x =
     (if x = 0 then 0
      else (let a = \<bar>x\<bar>; u = pow2 (binary_exponent a - 52)
            in sgn x * of_int (round_half_even (a / u)) * u))"

fun js_div :: "jsnum \<Rightarrow> jsnum \<Rightarrow> jsnum" where
  "js_div (Fin a) (Fin b) =
     (if b = 0 then (if a = 0 then NaN else if 0 < a then PosInf else NegInf)
      else Fin (round_double (a / b)))"
| "js_div (Fin a) PosInf = Fin 0"
| "js_div (Fin a) NegInf = Fin 0"
| "js_div PosInf (Fin b) = (if b < 0 then NegInf else PosInf)"
| "js_div NegInf (Fin b) = (if b < 0 then PosInf else NegInf)"
| "js_div x y = NaN"

fun js_mul :: "jsnum \<Rightarrow> jsnum \<Rightarrow> jsnum" where
  "js_mul (Fin a) (Fin b) = Fin (round_double (a * b))"
| "js_mul PosInf (Fin b) = (if b = 0 then NaN else if 0 < b then PosInf else NegInf)"
| "js_mul NegInf (Fin b) = (if b = 0 then NaN else if 0 < b then NegInf else PosInf)"
| "js_mul (Fin a) PosInf = (if a = 0 then NaN else if 0 < a then PosInf else NegInf)"
| "js_mul (Fin a) NegInf = (if a = 0 then NaN else if 0 < a then NegInf else PosInf)"
| "js_mul PosInf PosInf = PosInf"
| "js_mul NegInf NegInf = PosInf"
| "js_mul PosInf NegInf = NegInf"
| "js_mul NegInf PosInf = NegInf"
| "js_mul x y = NaN"

text \<open>
  \<open>x.toFixed(f)\<close>: the integer \<open>n\<close> with \<open>n / 10 ^ f\<close> nearest to the exact value of
  \<open>\<bar>x\<bar>\<close>, the larger one on a tie, printed with \<open>f\<close> digits after the point. (Above
  \<open>10 ^ 21\<close> the language switches to exponent notation; no value of this program
  comes near.)
\<close>

definition fixed_digits :: "nat \<Rightarrow> nat \<Rightarrow> string" where
  "fixed_digits f n =
     (let m = show_nat n;
          m = (if length m \<le> f then replicate (f + 1 - length m) (CHR ''0'') @ m else m);
          k = length m
      in if f = 0 then m else take (k - f) m @ ''.'' @ drop (k - f) m)"

fun js_toFixed :: "nat \<Rightarrow> jsnum \<Rightarrow> string" where
  "js_toFixed f NaN = ''NaN''"
| "js_toFixed f PosInf = ''Infinity''"
| "js_toFixed f NegInf = ''-Infinity''"
| "js_toFixed f (Fin x) =
     (if x < 0 then ''-'' else []) @ fixed_digits f (nat \<lfloor>\<bar>x\<bar> * 10 ^ f + 1 / 2\<rfloor>)"

text \<open>
  \<open>parseFloat(s) + ""\<close> for the texts \<open>toFixed\<close> produces here. A decimal of at most
  fifteen significant digits is printed back as itself without the zeros that end its
  fraction (the shortest text that denotes the same double); \<open>NaN\<close> and the infinities
  print as their names.
\<close>

definition parseFloat_text :: "string \<Rightarrow> string" where
  "parseFloat_text s =
     (if CHR ''.'' \<in> set s then
        (let t = rev (dropWhile (\<lambda>c. c = CHR ''0'') (rev s));
             t = (if t \<noteq> [] \<and> last t = CHR ''.'' then butlast t else t)
         in if t = ''-0'' then ''0'' else t)
      else s)"

text \<open>
  \<open>Math.floor(Math.log(bytes) / Math.log(1024))\<close> for an integral \<open>bytes\<close>. The language
  fixes the logarithm of a negative number (NaN) and of zero (\<open>-Infinity\<close>); for a
  positive argument \<open>Math.log\<close> is an approximation left to the implementation, and the
  quotient of two such values is rounded once more. What the expression yields for a
  positive \<open>bytes\<close> is therefore a parameter, \<open>logIndex\<close>: an integer, the floor of a
  finite quotient.
\<close>

definition Math_floor_log :: "(nat \<Rightarrow> int) \<Rightarrow> int \<Rightarrow> jsnum" where
  "Math_floor_log logIndex bytes =
     (if bytes < 0 then NaN
      else if bytes = 0 then NegInf
      else Fin (of_int (logIndex (nat bytes))))"

text \<open>
  The exact value \<open>floor (log n / log 1024)\<close>, the number of base-1024 digits of \<open>n\<close> less
  one; and what the properties below ask of an implementation: to agree with the exact
  value below \<open>1024 ^ 4\<close>, and not to fall below 4 from there on. (Engines do: the
  quotient of the two rounded logarithms is 1, 2, 3, 4 at the powers of 1024 and stays
  below them just before, up to \<open>1024 ^ 4\<close>. Further up they may differ from the exact
  value: just below \<open>1024 ^ 5\<close> the rounded quotient is 5.)
\<close>

definition exact_logIndex :: "nat \<Rightarrow> int" where
  "exact_logIndex n = int (floorlog 1024 n) - 1"

definition log_accurate :: "(nat \<Rightarrow> int) \<Rightarrow> bool" where
  "log_accurate logIndex \<longleftrightarrow>
     (\<forall>n. 1 \<le> n \<and> n < 1024 ^ 4 \<longrightarrow> logIndex n = exact_logIndex n)
     \<and> (\<forall>n. 1024 ^ 4 \<le> n \<longrightarrow> 4 \<le> logIndex n)"

text \<open>\<open>Math.pow(k, i)\<close> for \<open>k > 1\<close> and an integral, NaN or infinite \<open>i\<close>.\<close>

fun Math_pow :: "nat \<Rightarrow> jsnum \<Rightarrow> jsnum" where
  "Math_pow k NaN = NaN"
| "Math_pow k PosInf = PosInf"
| "Math_pow k NegInf = Fin 0"
| "Math_pow k (Fin e) = Fin (if 0 \<le> e then of_nat k ^ nat \<lfloor>e\<rfloor> else 1 / of_nat k ^ nat (- \<lfloor>e\<rfloor>))"

text \<open>
  \<open>"" + sizes[i]\<close>: a property read with a Number as key. Only an integral index inside
  the array finds an element; anything else reads \<open>undefined\<close>.
\<close>

fun js_index_text :: "string list \<Rightarrow> jsnum \<Rightarrow> string" where
  "js_index_text xs (Fin e) =
     (if e = of_int \<lfloor>e\<rfloor> \<and> 0 \<le> e \<and> nat \<lfloor>e\<rfloor> < length xs then xs ! nat \<lfloor>e\<rfloor> else ''undefined'')"
| "js_index_text xs x = ''undefined''"

section \<open>Size utility (utils.ts)\<close>

definition sizes :: "string list" where
  "sizes = [''Bytes'', ''KB'', ''MB'', ''GB'']"

definition formatBytes :: "(nat \<Rightarrow> int) \<Rightarrow> int \<Rightarrow> string" where
  "formatBytes logIndex bytes =
     (if bytes = 0 then ''0 Bytes''
      else
        (let k = 1024;
             i = Math_floor_log logIndex bytes
         in parseFloat_text (js_toFixed 2 (js_div (Fin (of_int bytes)) (Math_pow k i)))
              @ '' '' @ js_index_text sizes i))"

section \<open>Data model\<close>

record CompressionResult =
  file_name :: string
  success :: bool
  error :: "string option"
  originalSize :: "nat option"
  compressedSize :: "nat option"

text \<open>
  The form of the advanced command. (The field \<open>file\<close> above and \<open>instance\<close> below are
  reserved words of the prover, hence \<open>file_name\<close> and \<open>instance_on\<close>.)
\<close>

record FormValues =
  geometryCompression :: string
  textureCompression :: string
  textureResize :: string
  dedup :: bool
  flatten :: bool
  join :: bool
  weld :: bool
  prune :: bool
  resample :: bool
  sparse :: bool
  instance_on :: bool
  instanceMin :: string
  palette :: bool
  paletteMin :: string
  simplify :: bool
  simplifyRatio :: string
  simplifyError :: string

datatype CompressionMode = Draco | Ktx | Full

definition mode_text :: "CompressionMode \<Rightarrow> string" where
  "mode_text m = (case m of Draco \<Rightarrow> ''draco'' | Ktx \<Rightarrow> ''ktx'' | Full \<Rightarrow> ''full'')"

text \<open>
  The collaborators outside the program, over a state \<open>'w\<close> of the machine (the file
  system): \<open>getFileSize\<close> reads a size or fails, \<open>execAsync\<close> runs a shell command, which
  changes the machine and may fail. A failure is the message the \<open>catch\<close> blocks derive
  from the exception (\<open>error.message\<close>, or \<open>String(error)\<close>). \<open>numberText s\<close> is the text of
  \<open>parseFloat(s)\<close> in a template literal, and \<open>logIndex\<close> is the engine's value of
  \<open>Math.floor(Math.log(n) / Math.log(1024))\<close>.
\<close>

record 'w host =
  getFileSize :: "'w \<Rightarrow> string \<Rightarrow> string + nat"
  execAsync :: "'w \<Rightarrow> string \<Rightarrow> (string + unit) \<times> 'w"
  numberText :: "string \<Rightarrow> string"
  logIndex :: "nat \<Rightarrow> int"

section \<open>Pipeline builder (glb-advanced.tsx, transformGlb)\<close>

text \<open>
  One call of \<open>addCommand\<close>: the four holes of its template. \<open>command_text\<close> is the string
  the call pushes on \<open>commands\<close>.
\<close>

record TransformStep =
  cmd :: string
  input_path :: string
  output_path :: string
  args :: string

definition command_text :: "TransformStep \<Rightarrow> string" where
  "command_text s =
     trim (''gltf-transform '' @ cmd s @ '' '' @ input_path s @ '' '' @ output_path s @ '' '' @ args s)"

text \<open>The mutable variables of the builder: \<open>commands\<close> and \<open>currentInput\<close>.\<close>

record builder =
  commands :: "TransformStep list"
  currentInput :: string

definition addCommand :: "string \<Rightarrow> string \<Rightarrow> string \<Rightarrow> builder \<Rightarrow> builder" where
  "addCommand out c a b =
     b\<lparr>commands := commands b @ [\<lparr>cmd = c, input_path = currentInput b, output_path = out, args = a\<rparr>],
       currentInput := out\<rparr>"

text \<open>\<open>if (c) { f }\<close> on the builder.\<close>

definition guarded :: "bool \<Rightarrow> (builder \<Rightarrow> builder) \<Rightarrow> builder \<Rightarrow> builder" where
  "guarded c f b = (if c then f b else b)"

text \<open>\<open>s || d\<close> on strings: the empty string is falsy.\<close>

definition or_default :: "string \<Rightarrow> string \<Rightarrow> string" where
  "or_default s d = (if s = [] then d else s)"

text \<open>
  \<open>path.join(dirName, `${baseName}${suffix}.glb`)\<close> with
  \<open>baseName = path.basename(filePath, ".glb")\<close>, shared by both commands.
\<close>

definition derived_path :: "string \<Rightarrow> string \<Rightarrow> string" where
  "derived_path filePath sfx =
     path_join [dirname filePath, basename_ext filePath ''.glb'' @ sfx @ ''.glb'']"

text \<open>
  The thirteen guarded calls of \<open>addCommand\<close>, in the order of the source, from the
  initial variables \<open>commands = []\<close> and \<open>currentInput = "filePath"\<close>.
\<close>

definition optional_steps :: "(string \<Rightarrow> string) \<Rightarrow> string \<Rightarrow> string \<Rightarrow> FormValues \<Rightarrow> builder" where
  "optional_steps ratioText filePath out values =
     (let b = \<lparr>commands = [], currentInput = quoted filePath\<rparr>;
          b = guarded (dedup values) (addCommand out ''dedup'' []) b;
          b = guarded (instance_on values)
                (addCommand out ''instance'' (''--min '' @ or_default (instanceMin values) ''5'')) b;
          b = guarded (palette values)
                (addCommand out ''palette'' (''--min '' @ or_default (paletteMin values) ''5'')) b;
          b = guarded (flatten values) (addCommand out ''flatten'' []) b;
          b = guarded (join values) (addCommand out ''join'' []) b;
          b = guarded (weld values) (addCommand out ''weld'' []) b;
          b = guarded (simplify values)
                (addCommand out ''simplify''
                   (''--ratio '' @ ratioText (or_default (simplifyRatio values) ''0.75''))) b;
          b = guarded (resample values) (addCommand out ''resample'' []) b;
          b = guarded (prune values) (addCommand out ''prune'' []) b;
          b = guarded (sparse values) (addCommand out ''sparse'' []) b;
          b = guarded (textureCompression values \<noteq> ''none'')
                (addCommand out
                   (if textureCompression values = ''ktx2'' then ''etc1s'' else textureCompression values) []) b;
          b = guarded (textureResize values \<noteq> ''none'')
                (addCommand out ''resize''
                   (''--width '' @ textureResize values @ '' --height '' @ textureResize values)) b;
          b = guarded (geometryCompression values \<noteq> ''none'')
                (addCommand out (geometryCompression values) []) b
      in b)"

text \<open>The whole builder: the optional steps, and \<open>copy\<close> when none was added.\<close>

definition build_commands :: "(string \<Rightarrow> string) \<Rightarrow> string \<Rightarrow> string \<Rightarrow> FormValues \<Rightarrow> TransformStep list" where
  "build_commands ratioText filePath outputPath values =
     (let out = quoted outputPath;
          b = optional_steps ratioText filePath out values;
          b = guarded (length (commands b) = 0) (addCommand out ''copy'' []) b
      in commands b)"

text \<open>The steps \<open>transformGlb\<close> builds for a file, and the strings it executes.\<close>

definition transformGlb_steps :: "'w host \<Rightarrow> string \<Rightarrow> FormValues \<Rightarrow> TransformStep list" where
  "transformGlb_steps h filePath values =
     build_commands (numberText h) filePath (derived_path filePath ''_optimized'') values"

definition transformGlb_commands :: "'w host \<Rightarrow> string \<Rightarrow> FormValues \<Rightarrow> string list" where
  "transformGlb_commands h filePath values = map command_text (transformGlb_steps h filePath values)"

text \<open>
  The thirteen optional steps in the words of the specification: a fixed priority
  order, a test whether the form enables a step, and the subcommand a step runs.
\<close>

datatype step_kind =
  KDedup | KInstance | KPalette | KFlatten | KJoin | KWeld | KSimplify | KResample | KPrune
  | KSparse | KTextureCompression | KTextureResize | KGeometryCodec

definition priority_order :: "step_kind list" where
  "priority_order =
     [KDedup, KInstance, KPalette, KFlatten, KJoin, KWeld, KSimplify, KResample, KPrune,
      KSparse, KTextureCompression, KTextureResize, KGeometryCodec]"

fun enabled :: "FormValues \<Rightarrow> step_kind \<Rightarrow> bool" where
  "enabled v KDedup = dedup v"
| "enabled v KInstance = instance_on v"
| "enabled v KPalette = palette v"
| "enabled v KFlatten = flatten v"
| "enabled v KJoin = join v"
| "enabled v KWeld = weld v"
| "enabled v KSimplify = simplify v"
| "enabled v KResample = resample v"
| "enabled v KPrune = prune v"
| "enabled v KSparse = sparse v"
| "enabled v KTextureCompression = (textureCompression v \<noteq> ''none'')"
| "enabled v KTextureResize = (textureResize v \<noteq> ''none'')"
| "enabled v KGeometryCodec = (geometryCompression v \<noteq> ''none'')"

fun subcommand :: "FormValues \<Rightarrow> step_kind \<Rightarrow> string" where
  "subcommand v KDedup = ''dedup''"
| "subcommand v KInstance = ''instance''"
| "subcommand v KPalette = ''palette''"
| "subcommand v KFlatten = ''flatten''"
| "subcommand v KJoin = ''join''"
| "subcommand v KWeld = ''weld''"
| "subcommand v KSimplify = ''simplify''"
| "subcommand v KResample = ''resample''"
| "subcommand v KPrune = ''prune''"
| "subcommand v KSparse = ''sparse''"
| "subcommand v KTextureCompression =
     (if textureCompression v = ''ktx2'' then ''etc1s'' else textureCompression v)"
| "subcommand v KTextureResize = ''resize''"
| "subcommand v KGeometryCodec = geometryCompression v"

text \<open>
  The flags a step passes after the two paths: an occurrence threshold (5 when the field
  is empty) for instancing and palettes, the ratio of the simplification (0.75 when the
  field is empty; \<open>ratioText\<close> prints the parsed number), the two bounds of the texture
  resize; nothing for the other steps.
\<close>

fun arguments :: "(string \<Rightarrow> string) \<Rightarrow> FormValues \<Rightarrow> step_kind \<Rightarrow> string" where
  "arguments ratioText v KInstance = ''--min '' @ or_default (instanceMin v) ''5''"
| "arguments ratioText v KPalette = ''--min '' @ or_default (paletteMin v) ''5''"
| "arguments ratioText v KSimplify = ''--ratio '' @ ratioText (or_default (simplifyRatio v) ''0.75'')"
| "arguments ratioText v KTextureResize =
     ''--width '' @ textureResize v @ '' --height '' @ textureResize v"
| "arguments ratioText v k = []"

text \<open>
  What the specification expects of a form: the subcommands of the enabled steps in the
  priority order, with their flags; the single \<open>copy\<close>, without flags, when no step is
  enabled.
\<close>

definition expected_names :: "FormValues \<Rightarrow> string list" where
  "expected_names v =
     (if filter (enabled v) priority_order = [] then [''copy'']
      else map (subcommand v) (filter (enabled v) priority_order))"

definition expected_arguments :: "(string \<Rightarrow> string) \<Rightarrow> FormValues \<Rightarrow> string list" where
  "expected_arguments ratioText v =
     (if filter (enabled v) priority_order = [] then [[]]
      else map (arguments ratioText v) (filter (enabled v) priority_order))"

text \<open>The chain of declared paths: each step reads what the step before it wrote.\<close>

fun chained :: "string \<Rightarrow> TransformStep list \<Rightarrow> bool" where
  "chained cur [] = True"
| "chained cur (s # ss) = (input_path s = cur \<and> chained (output_path s) ss)"

section \<open>Running the commands of one file\<close>

text \<open>
  \<open>for (const command of commands) await execAsync(command, execOptions)\<close>: the first
  failure leaves the loop (it is thrown to the \<open>catch\<close> of \<open>transformGlb\<close>).
\<close>

fun run_commands :: "'w host \<Rightarrow> string list \<Rightarrow> 'w \<Rightarrow> (string + unit) \<times> 'w" where
  "run_commands h [] w = (Inr (), w)"
| "run_commands h (c # cs) w =
     (case execAsync h w c of
        (Inl e, w') \<Rightarrow> (Inl e, w')
      | (Inr u, w') \<Rightarrow> run_commands h cs w')"

definition failure :: "string \<Rightarrow> string \<Rightarrow> CompressionResult" where
  "failure fileName errorMessage =
     \<lparr>file_name = fileName, success = False, error = Some errorMessage,
      originalSize = None, compressedSize = None\<rparr>"

definition succeeded :: "string \<Rightarrow> nat \<Rightarrow> nat \<Rightarrow> CompressionResult" where
  "succeeded fileName original compressed =
     \<lparr>file_name = fileName, success = True, error = None,
      originalSize = Some original, compressedSize = Some compressed\<rparr>"

text \<open>The body shared by \<open>transformGlb\<close> and \<open>compressGlb\<close> once the commands are known.\<close>

definition process_file ::
  "'w host \<Rightarrow> string \<Rightarrow> string \<Rightarrow> string list \<Rightarrow> 'w \<Rightarrow> CompressionResult \<times> 'w" where
  "process_file h filePath outputPath cs w =
     (let fileName = basename filePath in
      case getFileSize h w filePath of
        Inl e \<Rightarrow> (failure fileName e, w)
      | Inr original \<Rightarrow>
          (case run_commands h cs w of
             (Inl e, w') \<Rightarrow> (failure fileName e, w')
           | (Inr u, w') \<Rightarrow>
               (case getFileSize h w' outputPath of
                  Inl e \<Rightarrow> (failure fileName e, w')
                | Inr compressed \<Rightarrow> (succeeded fileName original compressed, w'))))"

definition transformGlb :: "'w host \<Rightarrow> FormValues \<Rightarrow> string \<Rightarrow> 'w \<Rightarrow> CompressionResult \<times> 'w" where
  "transformGlb h values filePath w =
     process_file h filePath (derived_path filePath ''_optimized'')
       (transformGlb_commands h filePath values) w"

section \<open>Fixed compression modes (utils.ts, compressGlb)\<close>

definition mode_suffix :: "CompressionMode \<Rightarrow> string" where
  "mode_suffix m = (if m = Full then ''_compressed'' else ''_'' @ mode_text m)"

definition compress_command :: "CompressionMode \<Rightarrow> string \<Rightarrow> string \<Rightarrow> string" where
  "compress_command m filePath outputPath =
     ''gltf-transform optimize '' @ quoted filePath @ '' '' @ quoted outputPath @
       (case m of
          Draco \<Rightarrow> '' --compress draco''
        | Ktx \<Rightarrow> '' --texture-compress ktx2''
        | Full \<Rightarrow> '' --compress draco --texture-compress ktx2'')"

definition compressGlb :: "'w host \<Rightarrow> CompressionMode \<Rightarrow> string \<Rightarrow> 'w \<Rightarrow> CompressionResult \<times> 'w" where
  "compressGlb h m filePath w =
     (let outputPath = derived_path filePath (mode_suffix m)
      in process_file h filePath outputPath [compress_command m filePath outputPath] w)"

section \<open>Batch orchestration (handleSubmit, processGlbFiles)\<close>

text \<open>
  The loop over \<open>glbFiles\<close>: one result per file, pushed in order; the machine state is
  handed from file to file.
\<close>

fun process_all ::
  "(string \<Rightarrow> 'w \<Rightarrow> CompressionResult \<times> 'w) \<Rightarrow> string list \<Rightarrow> 'w \<Rightarrow> CompressionResult list \<times> 'w" where
  "process_all f [] w = ([], w)"
| "process_all f (p # ps) w =
     (case f p w of (r, w') \<Rightarrow> (case process_all f ps w' of (rs, w'') \<Rightarrow> (r # rs, w'')))"

definition is_glb :: "string \<Rightarrow> bool" where
  "is_glb p = endsWith (toLowerCase p) ''.glb''"

definition check_mark :: string where
  "check_mark = [CHR 0xE2, CHR 0x9C, CHR 0x85]"

definition cross_mark :: string where
  "cross_mark = [CHR 0xE2, CHR 0x9D, CHR 0x8C]"

definition warning_sign :: string where
  "warning_sign = [CHR 0xE2, CHR 0x9A, CHR 0xA0, CHR 0xEF, CHR 0xB8, CHR 0x8F]"

definition plural :: "nat \<Rightarrow> string" where
  "plural n = (if 1 < n then ''s'' else [])"

text \<open>\<open>r.originalSize || 0\<close>: an absent size and a zero size both count as zero.\<close>

definition size_or_zero :: "nat option \<Rightarrow> nat" where
  "size_or_zero x = (case x of None \<Rightarrow> 0 | Some n \<Rightarrow> n)"

definition total_original :: "CompressionResult list \<Rightarrow> nat" where
  "total_original rs = foldl (\<lambda>acc r. acc + size_or_zero (originalSize r)) 0 rs"

definition total_compressed :: "CompressionResult list \<Rightarrow> nat" where
  "total_compressed rs = foldl (\<lambda>acc r. acc + size_or_zero (compressedSize r)) 0 rs"

text \<open>\<open>((savings / totalOriginal) * 100).toFixed(1)\<close>.\<close>

definition savings_percent :: "int \<Rightarrow> nat \<Rightarrow> string" where
  "savings_percent savings totalOriginal =
     js_toFixed 1 (js_mul (js_div (Fin (of_int savings)) (Fin (of_nat totalOriginal))) (Fin 100))"

text \<open>
  The terminal notification. The two commands differ in their wording only, given by
  \<open>(all_ok, all_failed, done)\<close>: what precedes the count of an all-succeeded batch, the
  verb of an all-failed one, and the participle of a mixed one. \<open>li\<close> is the engine's
  \<open>logIndex\<close>, which \<open>formatBytes\<close> needs.
\<close>

definition summary ::
  "(nat \<Rightarrow> int) \<Rightarrow> string \<times> string \<times> string \<Rightarrow> CompressionResult list \<Rightarrow> string" where
  "summary li wording results =
     (case wording of (all_ok, all_failed, done) \<Rightarrow>
       (let successful = filter success results;
            failed = filter (\<lambda>r. \<not> success r) results
        in if length failed = 0 then
             (let totalOriginal = total_original successful;
                  totalCompressed = total_compressed successful;
                  savings = int totalOriginal - int totalCompressed;
                  savingsPercent = savings_percent savings totalOriginal
              in check_mark @ '' '' @ all_ok @ show_nat (length successful) @ '' file''
                   @ plural (length successful) @ '' - Saved '' @ formatBytes li savings
                   @ '' ('' @ savingsPercent @ ''%)'')
           else if length successful = 0 then
             cross_mark @ '' Failed to '' @ all_failed @ '' '' @ show_nat (length failed) @ '' file''
               @ plural (length failed)
           else
             warning_sign @ '' '' @ show_nat (length successful) @ '' '' @ done @ '', ''
               @ show_nat (length failed) @ '' failed''))"

text \<open>
  The notification of a batch in which \<open>f > 0\<close> files failed and \<open>s\<close> succeeded, written
  as a text of the two counts.
\<close>

definition count_notice :: "string \<times> string \<times> string \<Rightarrow> nat \<Rightarrow> nat \<Rightarrow> string" where
  "count_notice wording s f =
     (case wording of (all_ok, all_failed, done) \<Rightarrow>
        if s = 0 then
          cross_mark @ '' Failed to '' @ all_failed @ '' '' @ show_nat f @ '' file'' @ plural f
        else warning_sign @ '' '' @ show_nat s @ '' '' @ done @ '', '' @ show_nat f @ '' failed'')"

definition advanced_wording :: "string \<times> string \<times> string" where
  "advanced_wording = (''Optimized '', ''optimize'', ''optimized'')"

definition mode_wording :: "string \<Rightarrow> string \<times> string \<times> string" where
  "mode_wording modeName = (modeName @ '': '', ''compress'', ''compressed'')"

text \<open>
  What a run shows in the end and the results behind it. \<open>selection\<close> is the outcome of
  \<open>getSelectedFinderItems\<close>: the paths of the selected items, or the message of the
  exception it threw; \<open>no_selection\<close> is the text shown when that message mentions
  Finder.
\<close>

definition run_batch ::
  "(string \<Rightarrow> 'w \<Rightarrow> CompressionResult \<times> 'w) \<Rightarrow> (nat \<Rightarrow> int) \<Rightarrow> string \<times> string \<times> string \<Rightarrow> string
     \<Rightarrow> string + string list \<Rightarrow> 'w \<Rightarrow> (string \<times> CompressionResult list) \<times> 'w" where
  "run_batch f li wording no_selection selection w =
     (case selection of
        Inl errorMessage \<Rightarrow>
          ((if js_includes errorMessage ''Finder'' then cross_mark @ '' '' @ no_selection
            else cross_mark @ '' Error: '' @ errorMessage, []), w)
      | Inr selectedItems \<Rightarrow>
          if length selectedItems = 0 then ((cross_mark @ '' No files selected in Finder'', []), w)
          else
            (let glbFiles = filter is_glb selectedItems in
             if length glbFiles = 0 then ((cross_mark @ '' No GLB files selected'', []), w)
             else (case process_all f glbFiles w of
                     (results, w') \<Rightarrow> ((summary li wording results, results), w'))))"

definition handleSubmit ::
  "'w host \<Rightarrow> FormValues \<Rightarrow> string + string list \<Rightarrow> 'w \<Rightarrow> (string \<times> CompressionResult list) \<times> 'w" where
  "handleSubmit h values selection w =
     run_batch (transformGlb h values) (logIndex h) advanced_wording ''Select files in Finder first''
       selection w"

definition processGlbFiles ::
  "'w host \<Rightarrow> CompressionMode \<Rightarrow> string \<Rightarrow> string + string list \<Rightarrow> 'w
     \<Rightarrow> (string \<times> CompressionResult list) \<times> 'w" where
  "processGlbFiles h m modeName selection w =
     run_batch (compressGlb h m) (logIndex h) (mode_wording modeName)
       ''Could not get Finder selection. Please select files in Finder first.'' selection w"

section \<open>Report navigation (glb-inspect.tsx, Command)\<close>

text \<open>
  JavaScript's remainder on integral numbers: the sign follows the dividend, and a zero
  divisor yields NaN, represented here by \<open>None\<close>.
\<close>

definition js_rem :: "int \<Rightarrow> int \<Rightarrow> int option" where
  "js_rem a b = (if b = 0 then None else Some (sgn a * (\<bar>a\<bar> mod \<bar>b\<bar>)))"

text \<open>
  The two state updaters handed to \<open>setSelectedFileIndex\<close>; \<open>n\<close> is
  \<open>results.length\<close>:
  \<^verbatim>\<open>(i) => (i + 1) % results.length\<close> and
  \<^verbatim>\<open>(i) => (i - 1 + results.length) % results.length\<close>.
\<close>

definition select_next :: "nat \<Rightarrow> int \<Rightarrow> int option" where
  "select_next n i = js_rem (i + 1) (int n)"

definition select_previous :: "nat \<Rightarrow> int \<Rightarrow> int option" where
  "select_previous n i = js_rem (i - 1 + int n) (int n)"

text \<open>Pressing the same navigation action \<open>k\<close> times in a row.\<close>

fun press :: "nat \<Rightarrow> (int \<Rightarrow> int option) \<Rightarrow> int \<Rightarrow> int option" where
  "press 0 f i = Some i"
| "press (Suc k) f i = (case f i of None \<Rightarrow> None | Some j \<Rightarrow> press k f j)"

section \<open>Invariant of the builder and a sample run\<close>

text \<open>
  What holds of the builder's variables between two calls of \<open>addCommand\<close>: the steps so
  far are chained from \<open>start\<close>, all write to \<open>out\<close>, and \<open>currentInput\<close> is \<open>start\<close> until
  the first step and \<open>out\<close> from then on.
\<close>

definition builder_ok :: "string \<Rightarrow> string \<Rightarrow> builder \<Rightarrow> bool" where
  "builder_ok start out b \<longleftrightarrow>
     chained start (commands b) \<and> (\<forall>s \<in> set (commands b). output_path s = out)
     \<and> currentInput b = (if commands b = [] then start else out)"

text \<open>
  A machine for the sample runs. Its state is the log of the commands executed so far.
  A command that mentions \<open>broken\<close> fails; the sizes of eight files are known, every
  other path does not exist (so \<open>c.glb\<close> never gets its output; the output of \<open>d.glb\<close> is
  larger than \<open>d.glb\<close>).
\<close>

definition sample_sizes :: "(string \<times> nat) list" where
  "sample_sizes =
     [(''/m/a.glb'', 100), (''/m/a_optimized.glb'', 50),
      (''/m/b.glb'', 200), (''/m/b_optimized.glb'', 100),
      (''/m/broken.glb'', 70), (''/m/c.glb'', 30),
      (''/m/d.glb'', 10), (''/m/d_optimized.glb'', 25)]"

definition sample_host :: "string list host" where
  "sample_host =
     \<lparr>getFileSize = (\<lambda>w p. case map_of sample_sizes p of
                                Some n \<Rightarrow> Inr n
                              | None \<Rightarrow> Inl (''ENOENT: no such file or directory, stat '' @ p)),
      execAsync = (\<lambda>w c. if js_includes c ''broken'' then (Inl (''Command failed: '' @ c), w @ [c])
                           else (Inr (), w @ [c])),
      numberText = (\<lambda>s. s),
      logIndex = exact_logIndex\<rparr>"

definition sample_values :: FormValues where
  "sample_values =
     \<lparr>geometryCompression = ''draco'', textureCompression = ''ktx2'', textureResize = ''none'',
      dedup = True, flatten = False, join = False, weld = True, prune = False, resample = False,
      sparse = False, instance_on = False, instanceMin = [], palette = False, paletteMin = [],
      simplify = True, simplifyRatio = [], simplifyError = []\<rparr>"

definition all_disabled :: FormValues where
  "all_disabled =
     \<lparr>geometryCompression = ''none'', textureCompression = ''none'', textureResize = ''none'',
      dedup = False, flatten = False, join = False, weld = False, prune = False, resample = False,
      sparse = False, instance_on = False, instanceMin = [], palette = False, paletteMin = [],
      simplify = False, simplifyRatio = [], simplifyError = []\<rparr>"

text \<open>A selection of four items, three of them eligible, and the command that fails.\<close>

definition sample_items :: "string list" where
  "sample_items = [''/m/a.glb'', ''/m/notes.txt'', ''/m/broken.glb'', ''/m/b.glb'']"

definition broken_command :: string where
  "broken_command = ''gltf-transform dedup '' @ quoted ''/m/broken.glb'' @ '' '' @ quoted ''/m/broken_optimized.glb''"

section \<open>Properties of the report navigation\<close>

lemma select_next_mod:
  assumes "0 \<le> i" "0 < n"
  shows "select_next n i = Some ((i + 1) mod int n)"
proof -
  from assms have "0 \<le> i + 1" and "int n \<noteq> 0" by simp_all
  then show ?thesis
    by (simp add: select_next_def js_rem_def sgn_if)
qed

lemma select_previous_mod:
  assumes "0 \<le> i" "0 < n"
  shows "select_previous n i = Some ((i - 1) mod int n)"
proof -
  from assms have nn: "0 \<le> i - 1 + int n" and "int n \<noteq> 0" by simp_all
  have m: "(i - 1 + int n) mod int n = (i - 1) mod int n" by simp
  have "sgn (i - 1 + int n) * (\<bar>i - 1 + int n\<bar> mod \<bar>int n\<bar>) = (i - 1 + int n) mod int n"
    using nn by (cases "i - 1 + int n = 0") (simp_all add: sgn_if)
  with m \<open>int n \<noteq> 0\<close> show ?thesis
    by (simp add: select_previous_def js_rem_def)
qed

lemma press_next:
  assumes "0 < n"
  shows "0 \<le> i \<Longrightarrow> press k (select_next n) i = Some (if k = 0 then i else (i + int k) mod int n)"
proof (induction k arbitrary: i)
  case 0
  then show ?case by simp
next
  case (Suc k)
  let ?j = "(i + 1) mod int n"
  from assms have j0: "0 \<le> ?j" by simp
  have step: "press (Suc k) (select_next n) i = press k (select_next n) ?j"
    using Suc.prems assms by (simp add: select_next_mod)
  have "(?j + int k) mod int n = (i + int (Suc k)) mod int n"
    by (simp add: mod_simps ac_simps)
  with Suc.IH [OF j0] step show ?case
    by (cases "k = 0") simp_all
qed

lemma press_previous:
  assumes "0 < n"
  shows "0 \<le> i \<Longrightarrow> press k (select_previous n) i = Some (if k = 0 then i else (i - int k) mod int n)"
proof (induction k arbitrary: i)
  case 0
  then show ?case by simp
next
  case (Suc k)
  let ?j = "(i - 1) mod int n"
  from assms have j0: "0 \<le> ?j" by simp
  have step: "press (Suc k) (select_previous n) i = press k (select_previous n) ?j"
    using Suc.prems assms by (simp add: select_previous_mod)
  have "(?j - int k) mod int n = (i - int (Suc k)) mod int n"
    by (simp add: mod_simps algebra_simps)
  with Suc.IH [OF j0] step show ?case
    by (cases "k = 0") simp_all
qed

text \<open>
  C9. With \<open>n\<close> reports and a current index \<open>i\<close> inside \<open>[0, n - 1]\<close>, pressing
  "next" \<open>n\<close> times leads back to \<open>i\<close>, and so does pressing "previous" \<open>n\<close> times;
  a single press of either action is defined and stays inside \<open>[0, n - 1]\<close>.
\<close>

theorem navigation_cyclic:
  assumes "0 \<le> i" and "i < int n"
  shows "press n (select_next n) i = Some i
    \<and> press n (select_previous n) i = Some i
    \<and> (\<exists>j. select_next n i = Some j \<and> 0 \<le> j \<and> j < int n)
    \<and> (\<exists>j. select_previous n i = Some j \<and> 0 \<le> j \<and> j < int n)"
proof -
  from assms have n: "0 < n" by simp
  have "press n (select_next n) i = Some i"
    using press_next [OF n assms(1), of n] assms n by simp
  moreover have "press n (select_previous n) i = Some i"
    using press_previous [OF n assms(1), of n] assms n by simp
  moreover have "\<exists>j. select_next n i = Some j \<and> 0 \<le> j \<and> j < int n"
    using select_next_mod [OF assms(1) n] n by simp
  moreover have "\<exists>j. select_previous n i = Some j \<and> 0 \<le> j \<and> j < int n"
    using select_previous_mod [OF assms(1) n] n by simp
  ultimately show ?thesis by blast
qed

theorem navigation_cyclic_witness:
  "press 3 (select_next 3) 1 = Some 1 \<and> press 3 (select_previous 3) 1 = Some 1
    \<and> select_next 3 2 = Some 0 \<and> select_previous 3 0 = Some 2"
proof -
  have a: "(0::int) \<le> 1" and b: "(1::int) < int 3" by simp_all
  have c: "select_next 3 2 = Some 0 \<and> select_previous 3 0 = Some 2"
    by (simp add: select_next_def select_previous_def js_rem_def)
  from navigation_cyclic [OF a b] c show ?thesis by simp
qed

section \<open>Properties of trimming\<close>

text \<open>
  A byte that no white-space test accepts in any position ends the stripping: every
  ASCII character other than the six white-space bytes is such a byte, from either end.
\<close>

lemma strip_white_stop:
  assumes "\<not> w1 y" "\<And>b. \<not> w2 y b" "\<And>b c. \<not> w3 y b c"
  shows "strip_white w1 w2 w3 (y # ys) = y # ys"
proof (cases ys)
  case Nil
  with assms show ?thesis by simp
next
  case (Cons b bs)
  with assms show ?thesis by (cases bs) simp_all
qed

lemma strip_white_append:
  assumes "\<not> w1 y" "\<And>a. \<not> w2 y a" "\<And>a. \<not> w2 a y"
    "\<And>a b. \<not> w3 y a b" "\<And>a b. \<not> w3 a y b" "\<And>a b. \<not> w3 a b y"
  shows "strip_white w1 w2 w3 (xs @ y # ys) = strip_white w1 w2 w3 xs @ y # ys"
proof -
  have stop: "strip_white w1 w2 w3 (y # zs) = y # zs" for zs
    by (rule strip_white_stop) (use assms in auto)
  show ?thesis
  proof (induction xs rule: length_induct)
    case (1 xs)
    have ih: "strip_white w1 w2 w3 (zs @ y # ys) = strip_white w1 w2 w3 zs @ y # ys"
      if "length zs < length xs" for zs
      using 1 that by blast
    show ?case
    proof (cases xs)
      case Nil
      then show ?thesis by (simp add: stop)
    next
      case xs: (Cons a as)
      show ?thesis
      proof (cases as)
        case Nil
        show ?thesis
        proof (cases ys)
          case Nil
          with xs \<open>as = []\<close> assms stop show ?thesis by simp
        next
          case (Cons z zs)
          with xs \<open>as = []\<close> assms stop show ?thesis by simp
        qed
      next
        case as: (Cons b bs)
        show ?thesis
        proof (cases bs)
          case Nil
          have "strip_white w1 w2 w3 ([b] @ y # ys) = strip_white w1 w2 w3 [b] @ y # ys"
            by (rule ih) (simp add: xs as)
          with xs as Nil assms stop show ?thesis by simp
        next
          case (Cons c cs)
          have "strip_white w1 w2 w3 ((b # c # cs) @ y # ys) = strip_white w1 w2 w3 (b # c # cs) @ y # ys"
            and "strip_white w1 w2 w3 ((c # cs) @ y # ys) = strip_white w1 w2 w3 (c # cs) @ y # ys"
            and "strip_white w1 w2 w3 (cs @ y # ys) = strip_white w1 w2 w3 cs @ y # ys"
            by (rule ih, simp add: xs as Cons)+
          with xs as Cons show ?thesis by simp
        qed
      qed
    qed
  qed
qed

lemma ascii_not_white2: "(of_char y :: nat) < 128 \<Longrightarrow> \<not> js_whitespace2 y a \<and> \<not> js_whitespace2 a y"
  by (auto simp: js_whitespace2_def)

lemma ascii_not_white3:
  "(of_char y :: nat) < 128 \<Longrightarrow>
     \<not> js_whitespace3 y a b \<and> \<not> js_whitespace3 a y b \<and> \<not> js_whitespace3 a b y"
  by (auto simp: js_whitespace3_def)

lemma trimStart_stop:
  assumes "\<not> js_whitespace y" "(of_char y :: nat) < 128"
  shows "trimStart (y # ys) = y # ys"
  unfolding trimStart_def
  by (rule strip_white_stop) (use assms ascii_not_white2 ascii_not_white3 in auto)

lemma trimEnd_append:
  assumes "\<not> js_whitespace y" "(of_char y :: nat) < 128"
  shows "trimEnd (xs @ y # ys) = xs @ y # trimEnd ys"
proof -
  have "strip_white js_whitespace (\<lambda>a b. js_whitespace2 b a) (\<lambda>a b c. js_whitespace3 c b a)
          (rev ys @ y # rev xs)
      = strip_white js_whitespace (\<lambda>a b. js_whitespace2 b a) (\<lambda>a b c. js_whitespace3 c b a) (rev ys)
          @ y # rev xs"
    by (rule strip_white_append) (use assms ascii_not_white2 ascii_not_white3 in auto)
  then show ?thesis by (simp add: trimEnd_def)
qed

lemma trimEnd_blank: "trimEnd '' '' = []"
  by (simp add: trimEnd_def js_whitespace_def)

lemma dquote_plain: "\<not> js_whitespace dquote \<and> (of_char dquote :: nat) < 128"
  by (simp add: js_whitespace_def dquote_def)

text \<open>
  The text of a step whose output is a quoted path: the template as it stands up to the
  closing quote, then the arguments with the white space at their end removed.
\<close>

lemma command_text_quoted:
  assumes "output_path s = quoted outp"
  shows "command_text s =
     ''gltf-transform '' @ cmd s @ '' '' @ input_path s @ '' '' @ quoted outp @ trimEnd ('' '' @ args s)"
proof -
  let ?a = "''gltf-transform '' @ cmd s @ '' '' @ input_path s @ '' '' @ [dquote] @ outp"
  have g: "\<not> js_whitespace (CHR ''g'') \<and> (of_char (CHR ''g'') :: nat) < 128"
    by (simp add: js_whitespace_def)
  have "trimStart (?a @ dquote # ('' '' @ args s)) = ?a @ dquote # ('' '' @ args s)"
    using trimStart_stop [of "CHR ''g''"] g by simp
  moreover have "trimEnd (?a @ dquote # ('' '' @ args s)) = ?a @ dquote # trimEnd ('' '' @ args s)"
    using dquote_plain by (intro trimEnd_append) simp_all
  ultimately show ?thesis
    using assms by (simp add: command_text_def trim_def quoted_def)
qed

lemma command_text_no_args:
  assumes "output_path s = quoted outp" "args s = []"
  shows "command_text s = ''gltf-transform '' @ cmd s @ '' '' @ input_path s @ '' '' @ quoted outp"
  using command_text_quoted [OF assms(1)] assms(2) by (simp add: trimEnd_blank)

section \<open>Properties of the pipeline builder\<close>

lemma commands_guarded:
  "commands (guarded c (addCommand out k a) b) =
     commands b @ (if c then [\<lparr>cmd = k, input_path = currentInput b, output_path = out, args = a\<rparr>] else [])"
  by (simp add: guarded_def addCommand_def)

lemma cmds_guarded:
  "map cmd (commands (guarded c (addCommand out k a) b)) = map cmd (commands b) @ (if c then [k] else [])"
  by (simp add: guarded_def addCommand_def)

lemma filter_Cons_append: "filter P (x # xs) = (if P x then [x] else []) @ filter P xs"
  by simp

lemma map_if_single: "map f (if c then [x] else []) = (if c then [f x] else [])"
  by simp

lemma optional_cmds:
  "map cmd (commands (optional_steps r p out v)) = map (subcommand v) (filter (enabled v) priority_order)"
  unfolding optional_steps_def Let_def priority_order_def
  by (simp only: cmds_guarded filter_Cons_append map_append map_if_single enabled.simps subcommand.simps
      filter.simps(1) list.map builder.simps append_Nil append_Nil2 append_assoc)

lemma build_cmds:
  "map cmd (build_commands r p outp v) =
     (if filter (enabled v) priority_order = [] then [''copy'']
      else map (subcommand v) (filter (enabled v) priority_order))"
proof -
  let ?b = "optional_steps r p (quoted outp) v"
  have e: "(length (commands ?b) = 0) = (filter (enabled v) priority_order = [])"
    using optional_cmds [of r p "quoted outp" v] by (metis length_0_conv map_is_Nil_conv)
  show ?thesis
    unfolding build_commands_def Let_def cmds_guarded optional_cmds e by simp
qed

lemma weld_simplify_split:
  assumes "weld v" "simplify v"
  shows "\<exists>pre post. filter (enabled v) priority_order = pre @ [KWeld, KSimplify] @ post"
proof -
  have "filter (enabled v) priority_order =
      filter (enabled v) [KDedup, KInstance, KPalette, KFlatten, KJoin] @ [KWeld, KSimplify]
        @ filter (enabled v) [KResample, KPrune, KSparse, KTextureCompression, KTextureResize, KGeometryCodec]"
    unfolding priority_order_def using assms
    by (simp only: filter_Cons_append filter.simps(1) enabled.simps if_True append_Nil2 append_assoc
        append_Cons append_Nil)
  then show ?thesis by blast
qed

lemma geometry_last:
  assumes "geometryCompression v \<noteq> ''none''"
  shows "\<exists>pre. filter (enabled v) priority_order = pre @ [KGeometryCodec]"
proof -
  have "filter (enabled v) priority_order =
      filter (enabled v) [KDedup, KInstance, KPalette, KFlatten, KJoin, KWeld, KSimplify,
        KResample, KPrune, KSparse, KTextureCompression, KTextureResize] @ [KGeometryCodec]"
    unfolding priority_order_def using assms
    by (simp only: filter_Cons_append filter.simps(1) enabled.simps if_True append_Nil2 append_assoc
        append_Cons append_Nil simp_thms)
  then show ?thesis by blast
qed

lemma args_guarded:
  "map args (commands (guarded c (addCommand out k a) b)) = map args (commands b) @ (if c then [a] else [])"
  by (simp add: guarded_def addCommand_def)

lemma optional_args:
  "map args (commands (optional_steps r p out v)) = map (arguments r v) (filter (enabled v) priority_order)"
  unfolding optional_steps_def Let_def priority_order_def
  by (simp only: args_guarded filter_Cons_append map_append map_if_single enabled.simps arguments.simps
      filter.simps(1) list.map builder.simps append_Nil append_Nil2 append_assoc)

lemma build_names: "map cmd (build_commands r p outp v) = expected_names v"
  by (simp only: build_cmds expected_names_def)

lemma build_args: "map args (build_commands r p outp v) = expected_arguments r v"
proof -
  let ?b = "optional_steps r p (quoted outp) v"
  have e: "(length (commands ?b) = 0) = (filter (enabled v) priority_order = [])"
    using optional_cmds [of r p "quoted outp" v] by (metis length_0_conv map_is_Nil_conv)
  show ?thesis
    unfolding build_commands_def Let_def args_guarded optional_args e expected_arguments_def by simp
qed

lemma chained_snoc:
  "chained cur (xs @ [s]) =
     (chained cur xs \<and> input_path s = (if xs = [] then cur else output_path (last xs)))"
  by (induction xs arbitrary: cur) auto

lemma chained_nth:
  "chained cur cs \<Longrightarrow> 0 < i \<Longrightarrow> i < length cs \<Longrightarrow> input_path (cs ! i) = output_path (cs ! (i - 1))"
proof (induction cs arbitrary: cur i)
  case Nil
  then show ?case by simp
next
  case (Cons c cs)
  from Cons.prems obtain j where i: "i = Suc j" by (cases i) simp_all
  show ?case
  proof (cases j)
    case 0
    with Cons.prems i show ?thesis by (cases cs) simp_all
  next
    case (Suc k)
    from Cons.prems i have "chained (output_path c) cs" and "0 < j" and "j < length cs"
      using Suc by simp_all
    from Cons.IH [OF this] have "input_path (cs ! j) = output_path (cs ! (j - 1))" .
    with i Suc show ?thesis by simp
  qed
qed

lemma ok_guarded:
  assumes "builder_ok start out b"
  shows "builder_ok start out (guarded c (addCommand out k a) b)"
proof (cases c)
  case False
  with assms show ?thesis by (simp add: guarded_def)
next
  case True
  from assms have "chained start (commands b)"
    and "\<forall>s \<in> set (commands b). output_path s = out"
    and cur: "currentInput b = (if commands b = [] then start else out)"
    by (simp_all add: builder_ok_def)
  then have "currentInput b = (if commands b = [] then start else output_path (last (commands b)))"
    by simp
  with True \<open>chained start (commands b)\<close> \<open>\<forall>s \<in> set (commands b). output_path s = out\<close>
  show ?thesis
    by (simp add: builder_ok_def guarded_def addCommand_def chained_snoc)
qed

lemma ok_optional: "builder_ok (quoted p) out (optional_steps r p out v)"
  unfolding optional_steps_def Let_def
  by (intro ok_guarded) (simp add: builder_ok_def)

lemma ok_build:
  "chained (quoted p) (build_commands r p outp v)
   \<and> (\<forall>s \<in> set (build_commands r p outp v). output_path s = quoted outp)
   \<and> build_commands r p outp v \<noteq> []"
proof -
  let ?b = "optional_steps r p (quoted outp) v"
  let ?f = "guarded (length (commands ?b) = 0) (addCommand (quoted outp) ''copy'' []) ?b"
  have "builder_ok (quoted p) (quoted outp) ?f"
    by (rule ok_guarded) (rule ok_optional)
  moreover have "commands ?f \<noteq> []"
    by (simp add: commands_guarded)
  moreover have "build_commands r p outp v = commands ?f"
    by (simp add: build_commands_def Let_def)
  ultimately show ?thesis by (simp add: builder_ok_def)
qed

lemma build_shape:
  assumes "i < length (build_commands r p outp v)"
  shows "output_path (build_commands r p outp v ! i) = quoted outp
    \<and> input_path (build_commands r p outp v ! i) = (if i = 0 then quoted p else quoted outp)"
proof -
  let ?cs = "build_commands r p outp v"
  from ok_build [of p r outp v]
  have ch: "chained (quoted p) ?cs" and out: "\<forall>s \<in> set ?cs. output_path s = quoted outp" by simp_all
  from out assms have o: "output_path (?cs ! i) = quoted outp" by simp
  show ?thesis
  proof (cases "i = 0")
    case True
    with ch assms have "input_path (?cs ! i) = quoted p" by (cases ?cs) simp_all
    with o True show ?thesis by simp
  next
    case False
    with assms have "0 < i" and "i - 1 < length ?cs" by simp_all
    with chained_nth [OF ch _ assms] out have "input_path (?cs ! i) = quoted outp" by simp
    with o False show ?thesis by simp
  qed
qed

text \<open>The string executed for step \<open>i\<close>, spelled out.\<close>

lemma command_nth:
  assumes "i < length (transformGlb_steps h p v)"
  shows "transformGlb_commands h p v ! i =
     ''gltf-transform '' @ cmd (transformGlb_steps h p v ! i) @ '' ''
       @ (if i = 0 then quoted p else quoted (derived_path p ''_optimized'')) @ '' ''
       @ quoted (derived_path p ''_optimized'') @ trimEnd ('' '' @ args (transformGlb_steps h p v ! i))"
proof -
  let ?s = "transformGlb_steps h p v ! i"
  from build_shape [of i "numberText h" p "derived_path p ''_optimized''" v] assms
  have o: "output_path ?s = quoted (derived_path p ''_optimized'')"
    and i: "input_path ?s = (if i = 0 then quoted p else quoted (derived_path p ''_optimized''))"
    by (simp_all add: transformGlb_steps_def)
  from assms have "transformGlb_commands h p v ! i = command_text ?s"
    by (simp add: transformGlb_commands_def)
  with command_text_quoted [OF o] i show ?thesis by simp
qed

lemma commands_length: "length (transformGlb_commands h p v) = length (transformGlb_steps h p v)"
  by (simp add: transformGlb_commands_def)

lemma steps_names: "map cmd (transformGlb_steps h p v) = expected_names v"
  by (simp only: transformGlb_steps_def build_names)

lemma steps_args: "map args (transformGlb_steps h p v) = expected_arguments (numberText h) v"
  by (simp only: transformGlb_steps_def build_args)

lemma command_expected:
  assumes "i < length (transformGlb_commands h p v)"
  shows "transformGlb_commands h p v ! i =
     ''gltf-transform '' @ expected_names v ! i @ '' ''
       @ (if i = 0 then quoted p else quoted (derived_path p ''_optimized'')) @ '' ''
       @ quoted (derived_path p ''_optimized'')
       @ trimEnd ('' '' @ expected_arguments (numberText h) v ! i)"
proof -
  from assms have i: "i < length (transformGlb_steps h p v)" by (simp add: commands_length)
  then have "cmd (transformGlb_steps h p v ! i) = map cmd (transformGlb_steps h p v) ! i"
    and "args (transformGlb_steps h p v ! i) = map args (transformGlb_steps h p v) ! i"
    by simp_all
  then have "cmd (transformGlb_steps h p v ! i) = expected_names v ! i"
    and "args (transformGlb_steps h p v ! i) = expected_arguments (numberText h) v ! i"
    by (simp_all only: steps_names steps_args)
  with command_nth [OF i] show ?thesis by simp
qed

lemma expected_length: "length (transformGlb_commands h p v) = length (expected_names v)"
proof -
  have "length (map cmd (transformGlb_steps h p v)) = length (expected_names v)"
    by (simp only: steps_names)
  then show ?thesis by (simp add: commands_length)
qed

text \<open>
  C1. The commands executed for a file are, in this order, those of the enabled steps in
  the fixed priority order (the single \<open>copy\<close> when no step is enabled): command \<open>i\<close> is the
  text \<^verbatim>\<open>gltf-transform <subcommand> <input> <output> <flags>\<close> of the \<open>i\<close>-th enabled step,
  whatever the file and the other fields of the form are. Hence, when weld and simplify
  are both enabled, the \<open>weld\<close> command stands strictly before the \<open>simplify\<close> command;
  and when the geometry codec is not \<open>none\<close>, the last command is the codec's.
\<close>

theorem pipeline_order:
  "length (transformGlb_commands h filePath values) = length (expected_names values)
   \<and> (\<forall>i < length (transformGlb_commands h filePath values).
         transformGlb_commands h filePath values ! i =
           ''gltf-transform '' @ expected_names values ! i @ '' ''
             @ (if i = 0 then quoted filePath else quoted (derived_path filePath ''_optimized'')) @ '' '' @ quoted (derived_path filePath ''_optimized'')
             @ trimEnd ('' '' @ expected_arguments (numberText h) values ! i))
   \<and> (weld values \<and> simplify values \<longrightarrow>
        (\<exists>i j. i < j \<and> j < length (transformGlb_commands h filePath values)
           \<and> transformGlb_commands h filePath values ! i = ''gltf-transform weld '' @ (if i = 0 then quoted filePath else quoted (derived_path filePath ''_optimized'')) @ '' '' @ quoted (derived_path filePath ''_optimized'')
           \<and> transformGlb_commands h filePath values ! j = ''gltf-transform simplify '' @ quoted (derived_path filePath ''_optimized'') @ '' '' @ quoted (derived_path filePath ''_optimized'')
                 @ trimEnd ('' --ratio '' @ numberText h (or_default (simplifyRatio values) ''0.75''))))
   \<and> (geometryCompression values \<noteq> ''none'' \<longrightarrow>
        transformGlb_commands h filePath values \<noteq> []
        \<and> last (transformGlb_commands h filePath values) =
            ''gltf-transform '' @ geometryCompression values @ '' ''
              @ (if length (transformGlb_commands h filePath values) = 1 then quoted filePath else quoted (derived_path filePath ''_optimized'')) @ '' '' @ quoted (derived_path filePath ''_optimized''))"
proof -
  let ?cs = "transformGlb_commands h filePath values"
  let ?out = "quoted (derived_path filePath ''_optimized'')"
  let ?en = "filter (enabled values) priority_order"
  have len: "length ?cs = length (expected_names values)" by (rule expected_length)
  have nth: "?cs ! i =
           ''gltf-transform '' @ expected_names values ! i @ '' ''
             @ (if i = 0 then quoted filePath else ?out) @ '' '' @ ?out
             @ trimEnd ('' '' @ expected_arguments (numberText h) values ! i)"
    if "i < length ?cs" for i
    using that by (rule command_expected)
  have ws: "\<exists>i j. i < j \<and> j < length ?cs
           \<and> ?cs ! i = ''gltf-transform weld '' @ (if i = 0 then quoted filePath else ?out) @ '' '' @ ?out
           \<and> ?cs ! j = ''gltf-transform simplify '' @ ?out @ '' '' @ ?out
                 @ trimEnd ('' --ratio '' @ numberText h (or_default (simplifyRatio values) ''0.75''))"
    if "weld values \<and> simplify values"
  proof -
    from that obtain pre post where en: "?en = pre @ [KWeld, KSimplify] @ post"
      using weld_simplify_split by blast
    then have ne: "?en \<noteq> []" by simp
    let ?i = "length pre"
    have names: "expected_names values
        = map (subcommand values) pre @ [''weld'', ''simplify''] @ map (subcommand values) post"
      unfolding expected_names_def en by simp
    have argl: "expected_arguments (numberText h) values
        = map (arguments (numberText h) values) pre
          @ [[], ''--ratio '' @ numberText h (or_default (simplifyRatio values) ''0.75'')]
          @ map (arguments (numberText h) values) post"
      unfolding expected_arguments_def en by simp
    have l: "Suc ?i < length ?cs" unfolding len names by simp
    then have l0: "?i < length ?cs" by simp
    have n0: "expected_names values ! ?i = ''weld''"
      and n1: "expected_names values ! Suc ?i = ''simplify''"
      unfolding names by (simp_all add: nth_append)
    have a0: "expected_arguments (numberText h) values ! ?i = []"
      and a1: "expected_arguments (numberText h) values ! Suc ?i
          = ''--ratio '' @ numberText h (or_default (simplifyRatio values) ''0.75'')"
      unfolding argl by (simp_all add: nth_append)
    have "?cs ! ?i = ''gltf-transform weld '' @ (if ?i = 0 then quoted filePath else ?out) @ '' '' @ ?out"
      unfolding nth [OF l0] n0 a0 by (simp add: trimEnd_blank)
    moreover have "?cs ! Suc ?i = ''gltf-transform simplify '' @ ?out @ '' '' @ ?out
        @ trimEnd ('' --ratio '' @ numberText h (or_default (simplifyRatio values) ''0.75''))"
      unfolding nth [OF l] n1 a1 by simp
    moreover have "?i < Suc ?i" by simp
    ultimately show ?thesis using l by blast
  qed
  have geo: "?cs \<noteq> [] \<and> last ?cs =
            ''gltf-transform '' @ geometryCompression values @ '' ''
              @ (if length ?cs = 1 then quoted filePath else ?out) @ '' '' @ ?out"
    if "geometryCompression values \<noteq> ''none''"
  proof -
    from that obtain pre where en: "?en = pre @ [KGeometryCodec]"
      using geometry_last by blast
    let ?i = "length pre"
    have names: "expected_names values = map (subcommand values) pre @ [geometryCompression values]"
      unfolding expected_names_def en by simp
    have argl: "expected_arguments (numberText h) values = map (arguments (numberText h) values) pre @ [[]]"
      unfolding expected_arguments_def en by simp
    have l: "length ?cs = Suc ?i" unfolding len names by simp
    then have ne: "?cs \<noteq> []" by auto
    have n: "expected_names values ! ?i = geometryCompression values"
      unfolding names by (simp add: nth_append)
    have a: "expected_arguments (numberText h) values ! ?i = []"
      unfolding argl by (simp add: nth_append)
    from ne l have "last ?cs = ?cs ! ?i" by (simp add: last_conv_nth)
    also have "\<dots> = ''gltf-transform '' @ geometryCompression values @ '' ''
              @ (if ?i = 0 then quoted filePath else ?out) @ '' '' @ ?out"
      using l unfolding nth [of ?i, simplified l, simplified] n a by (simp add: trimEnd_blank)
    finally show ?thesis using ne l by simp
  qed
  from len nth ws geo show ?thesis by blast
qed

lemma sample_derived: "derived_path ''/m/a.glb'' ''_optimized'' = ''/m/a_optimized.glb''"
  by code_simp


lemma sample_names: "expected_names sample_values = [''dedup'', ''weld'', ''simplify'', ''etc1s'', ''draco'']"
  by (simp add: expected_names_def priority_order_def sample_values_def)

lemma sample_arguments:
  "expected_arguments (numberText sample_host) sample_values = [[], [], ''--ratio 0.75'', [], []]"
  by (simp add: expected_arguments_def priority_order_def sample_values_def sample_host_def or_default_def)

lemma sample_ratio: "trimEnd '' --ratio 0.75'' = '' --ratio 0.75''"
  by code_simp

theorem pipeline_order_witness:
  "weld sample_values \<and> simplify sample_values \<and> geometryCompression sample_values \<noteq> ''none''
   \<and> length (transformGlb_commands sample_host ''/m/a.glb'' sample_values) = 5
   \<and> transformGlb_commands sample_host ''/m/a.glb'' sample_values ! 1 = ''gltf-transform weld '' @ quoted ''/m/a_optimized.glb'' @ '' '' @ quoted ''/m/a_optimized.glb''
   \<and> transformGlb_commands sample_host ''/m/a.glb'' sample_values ! 2 = ''gltf-transform simplify '' @ quoted ''/m/a_optimized.glb'' @ '' '' @ quoted ''/m/a_optimized.glb'' @ '' --ratio 0.75''
   \<and> last (transformGlb_commands sample_host ''/m/a.glb'' sample_values) = ''gltf-transform draco '' @ quoted ''/m/a_optimized.glb'' @ '' '' @ quoted ''/m/a_optimized.glb''"
proof -
  let ?cs = "transformGlb_commands sample_host ''/m/a.glb'' sample_values"
  have v: "weld sample_values \<and> simplify sample_values \<and> geometryCompression sample_values \<noteq> ''none''"
    by (simp add: sample_values_def)
  have g: "geometryCompression sample_values = ''draco''" by (simp add: sample_values_def)
  note t = pipeline_order [of sample_host "''/m/a.glb''" sample_values]
  from t have len: "length ?cs = 5" by (simp add: sample_names)
  from t have nth: "\<forall>i < length ?cs.
         ?cs ! i =
           ''gltf-transform '' @ expected_names sample_values ! i @ '' ''
             @ (if i = 0 then quoted ''/m/a.glb'' else quoted (derived_path ''/m/a.glb'' ''_optimized''))
             @ '' '' @ quoted (derived_path ''/m/a.glb'' ''_optimized'')
             @ trimEnd ('' '' @ expected_arguments (numberText sample_host) sample_values ! i)"
    by (elim conjE)
  from len have "1 < length ?cs" and "2 < length ?cs" by simp_all
  with nth have "?cs ! 1 =
           ''gltf-transform '' @ expected_names sample_values ! 1 @ '' ''
             @ (if (1::nat) = 0 then quoted ''/m/a.glb'' else quoted (derived_path ''/m/a.glb'' ''_optimized''))
             @ '' '' @ quoted (derived_path ''/m/a.glb'' ''_optimized'')
             @ trimEnd ('' '' @ expected_arguments (numberText sample_host) sample_values ! 1)"
    and "?cs ! 2 =
           ''gltf-transform '' @ expected_names sample_values ! 2 @ '' ''
             @ (if (2::nat) = 0 then quoted ''/m/a.glb'' else quoted (derived_path ''/m/a.glb'' ''_optimized''))
             @ '' '' @ quoted (derived_path ''/m/a.glb'' ''_optimized'')
             @ trimEnd ('' '' @ expected_arguments (numberText sample_host) sample_values ! 2)"
    by blast+
  then have c1: "?cs ! 1 = ''gltf-transform weld '' @ quoted ''/m/a_optimized.glb'' @ '' '' @ quoted ''/m/a_optimized.glb''"
    and c2: "?cs ! 2 = ''gltf-transform simplify '' @ quoted ''/m/a_optimized.glb'' @ '' '' @ quoted ''/m/a_optimized.glb'' @ '' --ratio 0.75''"
    by (simp_all add: sample_names sample_arguments sample_derived trimEnd_blank sample_ratio)
  from t v have "last ?cs =
            ''gltf-transform '' @ geometryCompression sample_values @ '' ''
              @ (if length ?cs = 1 then quoted ''/m/a.glb'' else quoted (derived_path ''/m/a.glb'' ''_optimized''))
              @ '' '' @ quoted (derived_path ''/m/a.glb'' ''_optimized'')"
    by blast
  with len have c3: "last ?cs = ''gltf-transform draco '' @ quoted ''/m/a_optimized.glb'' @ '' '' @ quoted ''/m/a_optimized.glb''"
    by (simp add: g sample_derived)
  from v len c1 c2 c3 show ?thesis by (intro conjI) simp_all
qed

text \<open>
  C2. Every command executed for a file names one and the same output path, the derived
  path between quotes, right after its input; the input of the first command is the
  original file, and the input of every later command is that output path, which is
  what the command before it declared as its output. The same holds of the steps behind
  the commands.
\<close>

theorem single_output_chain:
  "transformGlb_commands h filePath values \<noteq> []
   \<and> length (transformGlb_commands h filePath values) = length (transformGlb_steps h filePath values)
   \<and> (\<forall>i < length (transformGlb_commands h filePath values).
         transformGlb_commands h filePath values ! i =
           ''gltf-transform '' @ cmd (transformGlb_steps h filePath values ! i) @ '' ''
             @ (if i = 0 then quoted filePath else quoted (derived_path filePath ''_optimized'')) @ '' ''
             @ quoted (derived_path filePath ''_optimized'')
             @ trimEnd ('' '' @ args (transformGlb_steps h filePath values ! i)))
   \<and> (\<forall>s \<in> set (transformGlb_steps h filePath values).
         output_path s = quoted (derived_path filePath ''_optimized''))
   \<and> input_path (hd (transformGlb_steps h filePath values)) = quoted filePath
   \<and> (\<forall>i. 0 < i \<and> i < length (transformGlb_steps h filePath values) \<longrightarrow>
         input_path (transformGlb_steps h filePath values ! i)
           = output_path (transformGlb_steps h filePath values ! (i - 1)))"
proof -
  let ?cs = "transformGlb_steps h filePath values"
  from ok_build [of filePath "numberText h" "derived_path filePath ''_optimized''" "values"]
  have ch: "chained (quoted filePath) ?cs"
    and out: "\<forall>s \<in> set ?cs. output_path s = quoted (derived_path filePath ''_optimized'')"
    and ne: "?cs \<noteq> []"
    by (simp_all add: transformGlb_steps_def)
  from ne have 1: "transformGlb_commands h filePath values \<noteq> []"
    by (simp add: transformGlb_commands_def)
  have 2: "length (transformGlb_commands h filePath values) = length ?cs"
    by (rule commands_length)
  have 3: "\<forall>i < length (transformGlb_commands h filePath values).
         transformGlb_commands h filePath values ! i =
           ''gltf-transform '' @ cmd (?cs ! i) @ '' ''
             @ (if i = 0 then quoted filePath else quoted (derived_path filePath ''_optimized'')) @ '' ''
             @ quoted (derived_path filePath ''_optimized'')
             @ trimEnd ('' '' @ args (?cs ! i))"
    unfolding 2 by (intro allI impI) (rule command_nth)
  from ch ne have 5: "input_path (hd ?cs) = quoted filePath"
    by (cases ?cs) simp_all
  from ch have 6: "\<forall>i. 0 < i \<and> i < length ?cs \<longrightarrow> input_path (?cs ! i) = output_path (?cs ! (i - 1))"
    using chained_nth by blast
  from 1 2 3 out 5 6 show ?thesis by (intro conjI)
qed

lemma sample_steps:
  "transformGlb_steps sample_host ''/m/a.glb'' sample_values =
     [\<lparr>cmd = ''dedup'', input_path = quoted ''/m/a.glb'', output_path = quoted ''/m/a_optimized.glb'', args = []\<rparr>,
      \<lparr>cmd = ''weld'', input_path = quoted ''/m/a_optimized.glb'', output_path = quoted ''/m/a_optimized.glb'', args = []\<rparr>,
      \<lparr>cmd = ''simplify'', input_path = quoted ''/m/a_optimized.glb'', output_path = quoted ''/m/a_optimized.glb'',
         args = ''--ratio 0.75''\<rparr>,
      \<lparr>cmd = ''etc1s'', input_path = quoted ''/m/a_optimized.glb'', output_path = quoted ''/m/a_optimized.glb'', args = []\<rparr>,
      \<lparr>cmd = ''draco'', input_path = quoted ''/m/a_optimized.glb'', output_path = quoted ''/m/a_optimized.glb'', args = []\<rparr>]"
  by (simp add: transformGlb_steps_def build_commands_def optional_steps_def guarded_def addCommand_def
      sample_values_def sample_host_def sample_derived or_default_def Let_def)

theorem single_output_chain_witness:
  "transformGlb_commands sample_host ''/m/a.glb'' sample_values \<noteq> []
   \<and> (0::nat) < length (transformGlb_commands sample_host ''/m/a.glb'' sample_values) \<and> 2 < length (transformGlb_commands sample_host ''/m/a.glb'' sample_values)
   \<and> transformGlb_commands sample_host ''/m/a.glb'' sample_values ! 0 = ''gltf-transform dedup '' @ quoted ''/m/a.glb'' @ '' '' @ quoted ''/m/a_optimized.glb''
   \<and> transformGlb_commands sample_host ''/m/a.glb'' sample_values ! 2 = ''gltf-transform simplify '' @ quoted ''/m/a_optimized.glb'' @ '' '' @ quoted ''/m/a_optimized.glb'' @ '' --ratio 0.75''
   \<and> transformGlb_steps sample_host ''/m/a.glb'' sample_values ! 2 \<in> set (transformGlb_steps sample_host ''/m/a.glb'' sample_values)
   \<and> output_path (transformGlb_steps sample_host ''/m/a.glb'' sample_values ! 2) = quoted ''/m/a_optimized.glb''
   \<and> input_path (hd (transformGlb_steps sample_host ''/m/a.glb'' sample_values)) = quoted ''/m/a.glb''
   \<and> (0::nat) < 2 \<and> 2 < length (transformGlb_steps sample_host ''/m/a.glb'' sample_values)
   \<and> input_path (transformGlb_steps sample_host ''/m/a.glb'' sample_values ! 2) = output_path (transformGlb_steps sample_host ''/m/a.glb'' sample_values ! (2 - 1))"
proof -
  let ?cs = "transformGlb_steps sample_host ''/m/a.glb'' sample_values"
  let ?ts = "transformGlb_commands sample_host ''/m/a.glb'' sample_values"
  note t = single_output_chain [of sample_host "''/m/a.glb''" sample_values]
  have len: "(0::nat) < 2 \<and> 2 < length ?cs" by (simp add: sample_steps)
  then have mem: "?cs ! 2 \<in> set ?cs" by simp
  from t have ne: "?ts \<noteq> []" and l: "length ?ts = length ?cs" by blast+
  have tl: "(0::nat) < length ?ts \<and> 2 < length ?ts"
    unfolding l using len by auto
  from t have nth: "\<forall>i < length ?ts.
         ?ts ! i =
           ''gltf-transform '' @ cmd (?cs ! i) @ '' ''
             @ (if i = 0 then quoted ''/m/a.glb'' else quoted (derived_path ''/m/a.glb'' ''_optimized'')) @ '' ''
             @ quoted (derived_path ''/m/a.glb'' ''_optimized'')
             @ trimEnd ('' '' @ args (?cs ! i))"
    by (elim conjE)
  from nth tl have "?ts ! 0 =
           ''gltf-transform '' @ cmd (?cs ! 0) @ '' ''
             @ (if (0::nat) = 0 then quoted ''/m/a.glb'' else quoted (derived_path ''/m/a.glb'' ''_optimized'')) @ '' ''
             @ quoted (derived_path ''/m/a.glb'' ''_optimized'')
             @ trimEnd ('' '' @ args (?cs ! 0))"
    and "?ts ! 2 =
           ''gltf-transform '' @ cmd (?cs ! 2) @ '' ''
             @ (if (2::nat) = 0 then quoted ''/m/a.glb'' else quoted (derived_path ''/m/a.glb'' ''_optimized'')) @ '' ''
             @ quoted (derived_path ''/m/a.glb'' ''_optimized'')
             @ trimEnd ('' '' @ args (?cs ! 2))"
    by blast+
  then have c0: "?ts ! 0 = ''gltf-transform dedup '' @ quoted ''/m/a.glb'' @ '' '' @ quoted ''/m/a_optimized.glb''"
    and c2: "?ts ! 2 = ''gltf-transform simplify '' @ quoted ''/m/a_optimized.glb'' @ '' '' @ quoted ''/m/a_optimized.glb'' @ '' --ratio 0.75''"
    by (simp_all add: sample_steps sample_derived trimEnd_blank sample_ratio)
  from t have out: "\<forall>s \<in> set ?cs. output_path s = quoted (derived_path ''/m/a.glb'' ''_optimized'')"
    and first: "input_path (hd ?cs) = quoted ''/m/a.glb''"
    and link: "\<forall>i. 0 < i \<and> i < length ?cs \<longrightarrow> input_path (?cs ! i) = output_path (?cs ! (i - 1))"
    by blast+
  from out mem have o: "output_path (?cs ! 2) = quoted ''/m/a_optimized.glb''"
    by (simp only: sample_derived)
  from link len have k: "input_path (?cs ! 2) = output_path (?cs ! (2 - 1))"
    by blast
  from ne tl c0 c2 mem o first len k show ?thesis by (intro conjI) simp_all
qed

text \<open>
  C3. When every optional step is disabled and the two codecs and the texture resize
  are \<open>none\<close>, exactly one step is built: \<open>copy\<close>, from the original file to the derived
  output path, with no arguments; the command executed is
  \<^verbatim>\<open>gltf-transform copy "<input>" "<output>"\<close>.
\<close>

theorem all_disabled_copy:
  assumes "\<not> dedup v" "\<not> instance_on v" "\<not> palette v" "\<not> flatten v" "\<not> join v" "\<not> weld v"
    "\<not> simplify v" "\<not> resample v" "\<not> prune v" "\<not> sparse v"
    "textureCompression v = ''none''" "textureResize v = ''none''" "geometryCompression v = ''none''"
  shows "transformGlb_steps h filePath v =
      [\<lparr>cmd = ''copy'', input_path = quoted filePath,
        output_path = quoted (derived_path filePath ''_optimized''), args = []\<rparr>]
    \<and> transformGlb_commands h filePath v =
      [''gltf-transform copy '' @ quoted filePath @ '' '' @ quoted (derived_path filePath ''_optimized'')]"
proof -
  let ?out = "quoted (derived_path filePath ''_optimized'')"
  have steps: "transformGlb_steps h filePath v =
      [\<lparr>cmd = ''copy'', input_path = quoted filePath, output_path = ?out, args = []\<rparr>]"
    using assms
    by (simp add: transformGlb_steps_def build_commands_def optional_steps_def guarded_def addCommand_def Let_def)
  have "command_text \<lparr>cmd = ''copy'', input_path = quoted filePath, output_path = ?out, args = []\<rparr>
      = ''gltf-transform copy '' @ quoted filePath @ '' '' @ ?out"
    using command_text_no_args
      [of "\<lparr>cmd = ''copy'', input_path = quoted filePath, output_path = ?out, args = []\<rparr>"
        "derived_path filePath ''_optimized''"]
    by simp
  with steps show ?thesis
    by (simp add: transformGlb_commands_def)
qed

theorem all_disabled_copy_witness:
  "transformGlb_steps sample_host ''/m/a.glb'' all_disabled =
      [\<lparr>cmd = ''copy'', input_path = quoted ''/m/a.glb'',
        output_path = quoted ''/m/a_optimized.glb'', args = []\<rparr>]
    \<and> transformGlb_commands sample_host ''/m/a.glb'' all_disabled =
      [''gltf-transform copy '' @ quoted ''/m/a.glb'' @ '' '' @ quoted ''/m/a_optimized.glb'']"
proof -
  have "\<not> dedup all_disabled" "\<not> instance_on all_disabled" "\<not> palette all_disabled"
    "\<not> flatten all_disabled" "\<not> join all_disabled" "\<not> weld all_disabled"
    "\<not> simplify all_disabled" "\<not> resample all_disabled" "\<not> prune all_disabled"
    "\<not> sparse all_disabled"
    "textureCompression all_disabled = ''none''" "textureResize all_disabled = ''none''"
    "geometryCompression all_disabled = ''none''"
    by (simp_all add: all_disabled_def)
  from all_disabled_copy [OF this, of sample_host "''/m/a.glb''"] show ?thesis
    by (simp only: sample_derived)
qed

section \<open>Properties of the batch run\<close>

lemma process_all_Cons:
  "process_all f (p # ps) w =
     (fst (f p w) # fst (process_all f ps (snd (f p w))), snd (process_all f ps (snd (f p w))))"
  by (simp add: case_prod_beta)

lemma process_all_length: "length (fst (process_all f ps w)) = length ps"
  by (induction ps arbitrary: w) (simp_all add: process_all_Cons del: process_all.simps(2))

lemma process_all_nth:
  "i < length ps \<Longrightarrow>
     fst (process_all f ps w) ! i = fst (f (ps ! i) (snd (process_all f (take i ps) w)))"
proof (induction ps arbitrary: w i)
  case Nil
  then show ?case by simp
next
  case (Cons p ps)
  show ?case
  proof (cases i)
    case 0
    then show ?thesis by (simp add: process_all_Cons del: process_all.simps(2))
  next
    case (Suc j)
    with Cons.prems have "j < length ps" by simp
    from Cons.IH [OF this, of "snd (f p w)"] Suc show ?thesis
      by (simp add: process_all_Cons del: process_all.simps(2))
  qed
qed

lemma process_all_names:
  assumes "\<And>p w. file_name (fst (f p w)) = g p"
  shows "map file_name (fst (process_all f ps w)) = map g ps"
  by (induction ps arbitrary: w) (simp_all add: process_all_Cons assms del: process_all.simps(2))

lemma process_file_name: "file_name (fst (process_file h p outp cs w)) = basename p"
  by (simp add: process_file_def failure_def succeeded_def Let_def split: sum.splits prod.splits)

lemma transformGlb_name: "file_name (fst (transformGlb h v p w)) = basename p"
  by (simp add: transformGlb_def process_file_name)

lemma run_commands_fail:
  "run_commands h pre w = (Inr (), w1) \<Longrightarrow> execAsync h w1 c = (Inl e, w2) \<Longrightarrow>
     run_commands h (pre @ c # post) w = (Inl e, w2)"
proof (induction pre arbitrary: w)
  case Nil
  then show ?case by simp
next
  case (Cons a pre)
  obtain r w' where ex: "execAsync h w a = (r, w')" by (cases "execAsync h w a")
  show ?case
  proof (cases r)
    case (Inl m)
    with ex Cons.prems(1) show ?thesis by simp
  next
    case (Inr u)
    with ex Cons.prems(1) have "run_commands h pre w' = (Inr (), w1)" by simp
    from Cons.IH [OF this Cons.prems(2)] ex Inr show ?thesis by simp
  qed
qed

lemma handleSubmit_results:
  assumes "filter is_glb items \<noteq> []"
  shows "snd (fst (handleSubmit h v (Inr items) w)) = fst (process_all (transformGlb h v) (filter is_glb items) w)"
proof -
  from assms have "items \<noteq> []" by auto
  then have "length items \<noteq> 0" by simp
  moreover from assms have "length (filter is_glb items) \<noteq> 0" by simp
  ultimately show ?thesis
    unfolding handleSubmit_def run_batch_def Let_def
    by (simp only: sum.case if_False case_prod_beta fst_conv snd_conv)
qed

text \<open>
  C5. For a selection whose eligible files are \<open>files\<close> (not empty), the run returns one
  result per eligible file, in the order of the files, each named after its file. The
  result at position \<open>i\<close> is what \<open>transformGlb\<close> returns for file \<open>i\<close> in the machine state
  the earlier files left: a failure elsewhere in the batch does not enter. And when a
  command of a file fails, the commands after it are not run: the machine is in the
  state the failed command left, and the result of the file has \<open>success\<close> false, the
  command's message as its \<open>error\<close>, the name of the file and no sizes. A file whose
  commands all succeed gets \<open>success\<close> true and its two sizes.
\<close>

theorem batch_failure_isolation:
  assumes "files = filter is_glb items" and "files \<noteq> []"
  shows "length (snd (fst (handleSubmit h v (Inr items) w))) = length files
    \<and> map file_name (snd (fst (handleSubmit h v (Inr items) w))) = map basename files
    \<and> (\<forall>i < length files.
          snd (fst (handleSubmit h v (Inr items) w)) ! i
            = fst (transformGlb h v (files ! i) (snd (process_all (transformGlb h v) (take i files) w))))
    \<and> (\<forall>p w0 n pre c post w1 e w2.
          getFileSize h w0 p = Inr n \<and> transformGlb_commands h p v = pre @ c # post
          \<and> run_commands h pre w0 = (Inr (), w1) \<and> execAsync h w1 c = (Inl e, w2)
          \<longrightarrow> transformGlb h v p w0 =
                (\<lparr>file_name = basename p, success = False, error = Some e,
                   originalSize = None, compressedSize = None\<rparr>, w2))
    \<and> (\<forall>p w0 n w1 m.
          getFileSize h w0 p = Inr n \<and> run_commands h (transformGlb_commands h p v) w0 = (Inr (), w1)
          \<and> getFileSize h w1 (derived_path p ''_optimized'') = Inr m
          \<longrightarrow> transformGlb h v p w0 =
                (\<lparr>file_name = basename p, success = True, error = None,
                   originalSize = Some n, compressedSize = Some m\<rparr>, w1))"
proof -
  let ?rs = "snd (fst (handleSubmit h v (Inr items) w))"
  from assms have "filter is_glb items \<noteq> []" by simp
  from handleSubmit_results [OF this, of h v w] assms(1)
  have rs: "?rs = fst (process_all (transformGlb h v) files w)" by simp
  have 1: "length ?rs = length files"
    unfolding rs by (rule process_all_length)
  have 2: "map file_name ?rs = map basename files"
    unfolding rs by (rule process_all_names) (rule transformGlb_name)
  have 3: "\<forall>i < length files.
      ?rs ! i = fst (transformGlb h v (files ! i) (snd (process_all (transformGlb h v) (take i files) w)))"
    unfolding rs by (intro allI impI) (rule process_all_nth)
  have 4: "\<forall>p w0 n pre c post w1 e w2.
          getFileSize h w0 p = Inr n \<and> transformGlb_commands h p v = pre @ c # post
          \<and> run_commands h pre w0 = (Inr (), w1) \<and> execAsync h w1 c = (Inl e, w2)
          \<longrightarrow> transformGlb h v p w0 =
                (\<lparr>file_name = basename p, success = False, error = Some e,
                   originalSize = None, compressedSize = None\<rparr>, w2)"
  proof (intro allI impI, elim conjE)
    fix p w0 n pre c post w1 e w2
    assume a: "getFileSize h w0 p = Inr n" and b: "transformGlb_commands h p v = pre @ c # post"
      and c: "run_commands h pre w0 = (Inr (), w1)" and d: "execAsync h w1 c = (Inl e, w2)"
    from c d have "run_commands h (pre @ c # post) w0 = (Inl e, w2)"
      by (rule run_commands_fail)
    with a b show "transformGlb h v p w0 =
                (\<lparr>file_name = basename p, success = False, error = Some e,
                   originalSize = None, compressedSize = None\<rparr>, w2)"
      unfolding transformGlb_def process_file_def Let_def failure_def by simp
  qed
  have 5: "\<forall>p w0 n w1 m.
          getFileSize h w0 p = Inr n \<and> run_commands h (transformGlb_commands h p v) w0 = (Inr (), w1)
          \<and> getFileSize h w1 (derived_path p ''_optimized'') = Inr m
          \<longrightarrow> transformGlb h v p w0 =
                (\<lparr>file_name = basename p, success = True, error = None,
                   originalSize = Some n, compressedSize = Some m\<rparr>, w1)"
  proof (intro allI impI, elim conjE)
    fix p w0 n w1 m
    assume "getFileSize h w0 p = Inr n" "run_commands h (transformGlb_commands h p v) w0 = (Inr (), w1)"
      "getFileSize h w1 (derived_path p ''_optimized'') = Inr m"
    then show "transformGlb h v p w0 =
                (\<lparr>file_name = basename p, success = True, error = None,
                   originalSize = Some n, compressedSize = Some m\<rparr>, w1)"
      unfolding transformGlb_def process_file_def Let_def succeeded_def by simp
  qed
  from 1 2 3 4 5 show ?thesis by (intro conjI)
qed

lemma sample_eligible: "filter is_glb sample_items = [''/m/a.glb'', ''/m/broken.glb'', ''/m/b.glb'']"
  by code_simp

lemma sample_first_command:
  "transformGlb_commands sample_host ''/m/broken.glb'' sample_values
     = [] @ broken_command # tl (transformGlb_commands sample_host ''/m/broken.glb'' sample_values)"
proof -
  have "hd (transformGlb_commands sample_host ''/m/broken.glb'' sample_values) = broken_command"
    and "transformGlb_commands sample_host ''/m/broken.glb'' sample_values \<noteq> []"
    by code_simp+
  then show ?thesis by (metis append_Nil list.collapse)
qed

theorem batch_failure_isolation_witness:
  "filter is_glb sample_items \<noteq> []
   \<and> length (snd (fst (handleSubmit sample_host sample_values (Inr sample_items) []))) = 3
   \<and> map file_name (snd (fst (handleSubmit sample_host sample_values (Inr sample_items) []))) = [''a.glb'', ''broken.glb'', ''b.glb'']
   \<and> snd (fst (handleSubmit sample_host sample_values (Inr sample_items) [])) ! 0 = \<lparr>file_name = ''a.glb'', success = True, error = None,
                 originalSize = Some 100, compressedSize = Some 50\<rparr>
   \<and> snd (fst (handleSubmit sample_host sample_values (Inr sample_items) [])) ! 1 = \<lparr>file_name = ''broken.glb'', success = False, error = Some (''Command failed: '' @ broken_command),
                 originalSize = None, compressedSize = None\<rparr>
   \<and> \<not> success (snd (fst (handleSubmit sample_host sample_values (Inr sample_items) [])) ! 1)
   \<and> snd (fst (handleSubmit sample_host sample_values (Inr sample_items) [])) ! 2 = \<lparr>file_name = ''b.glb'', success = True, error = None,
                 originalSize = Some 200, compressedSize = Some 100\<rparr>
   \<and> transformGlb sample_host sample_values ''/m/broken.glb'' []
       = (\<lparr>file_name = ''broken.glb'', success = False, error = Some (''Command failed: '' @ broken_command),
            originalSize = None, compressedSize = None\<rparr>, [broken_command])"
proof -
  let ?files = "[''/m/a.glb'', ''/m/broken.glb'', ''/m/b.glb'']"
  let ?rs = "snd (fst (handleSubmit sample_host sample_values (Inr sample_items) []))"
  let ?f = "transformGlb sample_host sample_values"
  have el: "?files = filter is_glb sample_items" by (simp only: sample_eligible)
  have ne: "?files \<noteq> []" by simp
  note t = batch_failure_isolation [OF el ne, of sample_host sample_values "[]"]
  from t have len: "length ?rs = 3" by simp
  from t have "map file_name ?rs = map basename ?files" by blast
  moreover have "map basename ?files = [''a.glb'', ''broken.glb'', ''b.glb'']" by code_simp
  ultimately have names: "map file_name ?rs = [''a.glb'', ''broken.glb'', ''b.glb'']" by simp
  from t have nth: "\<forall>i < length ?files. ?rs ! i = fst (?f (?files ! i) (snd (process_all ?f (take i ?files) [])))"
    by blast
  have "?rs ! 0 = fst (?f (?files ! 0) (snd (process_all ?f (take 0 ?files) [])))"
    using nth by simp
  moreover have "fst (?f (?files ! 0) (snd (process_all ?f (take 0 ?files) [])))
      = \<lparr>file_name = ''a.glb'', success = True, error = None,
          originalSize = Some 100, compressedSize = Some 50\<rparr>"
    by code_simp
  ultimately have r0: "?rs ! 0 = \<lparr>file_name = ''a.glb'', success = True, error = None,
          originalSize = Some 100, compressedSize = Some 50\<rparr>" by simp
  have "?rs ! 1 = fst (?f (?files ! 1) (snd (process_all ?f (take 1 ?files) [])))"
    using nth by simp
  moreover have "fst (?f (?files ! 1) (snd (process_all ?f (take 1 ?files) [])))
      = \<lparr>file_name = ''broken.glb'', success = False, error = Some (''Command failed: '' @ broken_command),
          originalSize = None, compressedSize = None\<rparr>"
    by code_simp
  ultimately have r1: "?rs ! 1 = \<lparr>file_name = ''broken.glb'', success = False, error = Some (''Command failed: '' @ broken_command),
          originalSize = None, compressedSize = None\<rparr>" by simp
  then have f1: "\<not> success (?rs ! 1)" by simp
  have "?rs ! 2 = fst (?f (?files ! 2) (snd (process_all ?f (take 2 ?files) [])))"
    using nth by simp
  moreover have "fst (?f (?files ! 2) (snd (process_all ?f (take 2 ?files) [])))
      = \<lparr>file_name = ''b.glb'', success = True, error = None,
          originalSize = Some 200, compressedSize = Some 100\<rparr>"
    by code_simp
  ultimately have r2: "?rs ! 2 = \<lparr>file_name = ''b.glb'', success = True, error = None,
          originalSize = Some 200, compressedSize = Some 100\<rparr>" by simp
  from t have fail: "\<forall>p w0 n pre c post w1 e w2.
          getFileSize sample_host w0 p = Inr n \<and> transformGlb_commands sample_host p sample_values = pre @ c # post
          \<and> run_commands sample_host pre w0 = (Inr (), w1) \<and> execAsync sample_host w1 c = (Inl e, w2)
          \<longrightarrow> ?f p w0 =
                (\<lparr>file_name = basename p, success = False, error = Some e,
                   originalSize = None, compressedSize = None\<rparr>, w2)"
    by (elim conjE)
  have a: "getFileSize sample_host [] ''/m/broken.glb'' = Inr 70" by code_simp
  have c: "run_commands sample_host [] [] = (Inr (), [])" by simp
  have d: "execAsync sample_host [] broken_command = (Inl (''Command failed: '' @ broken_command), [broken_command])"
    by code_simp
  have bn: "basename ''/m/broken.glb'' = ''broken.glb''" by code_simp
  from fail [rule_format, OF conjI [OF a conjI [OF sample_first_command conjI [OF c d]]]] bn
  have last: "?f ''/m/broken.glb'' [] =
       (\<lparr>file_name = ''broken.glb'', success = False, error = Some (''Command failed: '' @ broken_command),
            originalSize = None, compressedSize = None\<rparr>, [broken_command])"
    by simp
  have ne': "filter is_glb sample_items \<noteq> []" by (simp add: sample_eligible)
  from ne' len names r0 r1 f1 r2 last show ?thesis by (intro conjI)
qed

section \<open>Error messages and the terminal notification\<close>

lemma summary_with_failure:
  assumes "\<exists>r \<in> set rs. \<not> success r"
  shows "summary li wording rs =
     count_notice wording (length (filter success rs)) (length (filter (\<lambda>r. \<not> success r) rs))"
proof -
  obtain ok fl dn where w: "wording = (ok, fl, dn)" by (cases wording)
  from assms have "filter (\<lambda>r. \<not> success r) rs \<noteq> []"
    by (simp add: filter_empty_conv)
  then have "length (filter (\<lambda>r. \<not> success r) rs) \<noteq> 0" by simp
  then show ?thesis
    unfolding summary_def count_notice_def Let_def w by (simp only: prod.case if_False)
qed

lemma handleSubmit_notice:
  assumes "filter is_glb items \<noteq> []"
  shows "fst (fst (handleSubmit h v (Inr items) w))
     = summary (logIndex h) advanced_wording (snd (fst (handleSubmit h v (Inr items) w)))"
proof -
  from assms have "items \<noteq> []" by auto
  then have "length items \<noteq> 0" by simp
  moreover from assms have "length (filter is_glb items) \<noteq> 0" by simp
  ultimately show ?thesis
    unfolding handleSubmit_def run_batch_def Let_def
    by (simp only: sum.case if_False case_prod_beta fst_conv snd_conv)
qed

lemma process_file_stat_fails:
  "getFileSize h w p = Inl e \<Longrightarrow> process_file h p outp cs w = (failure (basename p) e, w)"
  by (simp add: process_file_def)

lemma process_file_command_fails:
  "getFileSize h w p = Inr n \<Longrightarrow> run_commands h cs w = (Inl e, w') \<Longrightarrow>
     process_file h p outp cs w = (failure (basename p) e, w')"
  by (simp add: process_file_def)

lemma process_file_output_missing:
  "getFileSize h w p = Inr n \<Longrightarrow> run_commands h cs w = (Inr (), w') \<Longrightarrow>
     getFileSize h w' outp = Inl e \<Longrightarrow> process_file h p outp cs w = (failure (basename p) e, w')"
  by (simp add: process_file_def)

text \<open>
  C6 as amended. Whatever fails first for a file (reading its size, one of its commands,
  reading the size of the output), the message of that failure is the \<open>error\<close> field of
  the file's result, unchanged, and \<open>success\<close> is false; the message of a failed chain is
  the message of its first failing command. The notification of a batch with a failure
  is a text of the two counts: \<open>Failed to optimize F file(s)\<close> after a cross mark when no
  file succeeded, \<open>S optimized, F failed\<close> after a warning sign otherwise. No error
  message is put into it.
\<close>

theorem error_captured_summary_counts:
  "(\<forall>p w e. getFileSize h w p = Inl e \<longrightarrow>
      fst (transformGlb h v p w) = \<lparr>file_name = basename p, success = False, error = Some e, originalSize = None, compressedSize = None\<rparr>)
   \<and> (\<forall>p w n e w'. getFileSize h w p = Inr n
        \<and> run_commands h (transformGlb_commands h p v) w = (Inl e, w') \<longrightarrow>
      fst (transformGlb h v p w) = \<lparr>file_name = basename p, success = False, error = Some e, originalSize = None, compressedSize = None\<rparr>)
   \<and> (\<forall>p w n e w'. getFileSize h w p = Inr n
        \<and> run_commands h (transformGlb_commands h p v) w = (Inr (), w')
        \<and> getFileSize h w' (derived_path p ''_optimized'') = Inl e \<longrightarrow>
      fst (transformGlb h v p w) = \<lparr>file_name = basename p, success = False, error = Some e, originalSize = None, compressedSize = None\<rparr>)
   \<and> (\<forall>pre c post w w1 e w2. run_commands h pre w = (Inr (), w1) \<and> execAsync h w1 c = (Inl e, w2) \<longrightarrow>
      run_commands h (pre @ c # post) w = (Inl e, w2))
   \<and> (\<forall>items w. filter is_glb items \<noteq> []
        \<and> (\<exists>r \<in> set (snd (fst (handleSubmit h v (Inr items) w))). \<not> success r) \<longrightarrow>
      fst (fst (handleSubmit h v (Inr items) w))
        = count_notice advanced_wording
            (length (filter success (snd (fst (handleSubmit h v (Inr items) w)))))
            (length (filter (\<lambda>r. \<not> success r) (snd (fst (handleSubmit h v (Inr items) w))))))
   \<and> (\<forall>s f. 0 < f \<longrightarrow>
        count_notice advanced_wording s f =
          (if s = 0 then cross_mark @ '' Failed to optimize '' @ show_nat f @ '' file'' @ plural f
           else warning_sign @ '' '' @ show_nat s @ '' optimized, '' @ show_nat f @ '' failed''))"
proof (intro conjI allI impI; (elim conjE)?)
  fix p w e assume "getFileSize h w p = Inl e"
  then show "fst (transformGlb h v p w) = \<lparr>file_name = basename p, success = False, error = Some e, originalSize = None, compressedSize = None\<rparr>"
    by (simp add: transformGlb_def process_file_stat_fails failure_def)
next
  fix p w n e w'
  assume "getFileSize h w p = Inr n" "run_commands h (transformGlb_commands h p v) w = (Inl e, w')"
  then show "fst (transformGlb h v p w) = \<lparr>file_name = basename p, success = False, error = Some e, originalSize = None, compressedSize = None\<rparr>"
    by (simp add: transformGlb_def process_file_command_fails failure_def)
next
  fix p w n e w'
  assume "getFileSize h w p = Inr n" "run_commands h (transformGlb_commands h p v) w = (Inr (), w')"
    "getFileSize h w' (derived_path p ''_optimized'') = Inl e"
  then show "fst (transformGlb h v p w) = \<lparr>file_name = basename p, success = False, error = Some e, originalSize = None, compressedSize = None\<rparr>"
    by (simp add: transformGlb_def process_file_output_missing failure_def)
next
  fix pre c post w w1 e w2
  assume "run_commands h pre w = (Inr (), w1)" "execAsync h w1 c = (Inl e, w2)"
  then show "run_commands h (pre @ c # post) w = (Inl e, w2)"
    by (rule run_commands_fail)
next
  fix items w
  assume ne: "filter is_glb items \<noteq> []"
    and f: "\<exists>r \<in> set (snd (fst (handleSubmit h v (Inr items) w))). \<not> success r"
  show "fst (fst (handleSubmit h v (Inr items) w))
        = count_notice advanced_wording
            (length (filter success (snd (fst (handleSubmit h v (Inr items) w)))))
            (length (filter (\<lambda>r. \<not> success r) (snd (fst (handleSubmit h v (Inr items) w)))))"
    unfolding handleSubmit_notice [OF ne, of h v w] by (rule summary_with_failure [OF f])
next
  fix s f :: nat
  show "count_notice advanced_wording s f =
          (if s = 0 then cross_mark @ '' Failed to optimize '' @ show_nat f @ '' file'' @ plural f
           else warning_sign @ '' '' @ show_nat s @ '' optimized, '' @ show_nat f @ '' failed'')"
    by (simp add: count_notice_def advanced_wording_def)
qed

text \<open>
  C6 as stated fails: a batch whose only file fails, and a mixed batch, both keep the
  message in the result, and neither notification contains it.
\<close>

theorem summary_omits_error_counterexample:
  "snd (fst (handleSubmit sample_host sample_values (Inr [''/m/broken.glb'']) []))
      = [failure ''broken.glb'' (''Command failed: '' @ broken_command)]
   \<and> fst (fst (handleSubmit sample_host sample_values (Inr [''/m/broken.glb'']) []))
      = cross_mark @ '' Failed to optimize 1 file''
   \<and> \<not> js_includes (fst (fst (handleSubmit sample_host sample_values (Inr [''/m/broken.glb'']) [])))
        (''Command failed: '' @ broken_command)
   \<and> snd (fst (handleSubmit sample_host sample_values (Inr sample_items) []))
      = [succeeded ''a.glb'' 100 50, failure ''broken.glb'' (''Command failed: '' @ broken_command),
         succeeded ''b.glb'' 200 100]
   \<and> fst (fst (handleSubmit sample_host sample_values (Inr sample_items) []))
      = warning_sign @ '' 2 optimized, 1 failed''
   \<and> \<not> js_includes (fst (fst (handleSubmit sample_host sample_values (Inr sample_items) [])))
        (''Command failed: '' @ broken_command)"
proof (intro conjI)
  show "snd (fst (handleSubmit sample_host sample_values (Inr [''/m/broken.glb'']) []))
      = [failure ''broken.glb'' (''Command failed: '' @ broken_command)]"
    by code_simp
  show "fst (fst (handleSubmit sample_host sample_values (Inr [''/m/broken.glb'']) []))
      = cross_mark @ '' Failed to optimize 1 file''"
    by code_simp
  show "\<not> js_includes (fst (fst (handleSubmit sample_host sample_values (Inr [''/m/broken.glb'']) [])))
        (''Command failed: '' @ broken_command)"
    by code_simp
  show "snd (fst (handleSubmit sample_host sample_values (Inr sample_items) []))
      = [succeeded ''a.glb'' 100 50, failure ''broken.glb'' (''Command failed: '' @ broken_command),
         succeeded ''b.glb'' 200 100]"
    by code_simp
  show "fst (fst (handleSubmit sample_host sample_values (Inr sample_items) []))
      = warning_sign @ '' 2 optimized, 1 failed''"
    by code_simp
  show "\<not> js_includes (fst (fst (handleSubmit sample_host sample_values (Inr sample_items) [])))
        (''Command failed: '' @ broken_command)"
    by code_simp
qed

theorem error_captured_summary_counts_witness:
  "fst (transformGlb sample_host sample_values ''/m/none.glb'' [])
      = \<lparr>file_name = ''none.glb'', success = False, error = Some ''ENOENT: no such file or directory, stat /m/none.glb'', originalSize = None, compressedSize = None\<rparr>
   \<and> fst (transformGlb sample_host sample_values ''/m/broken.glb'' [])
      = \<lparr>file_name = ''broken.glb'', success = False, error = Some (''Command failed: '' @ broken_command), originalSize = None, compressedSize = None\<rparr>
   \<and> fst (transformGlb sample_host all_disabled ''/m/c.glb'' [])
      = \<lparr>file_name = ''c.glb'', success = False, error = Some ''ENOENT: no such file or directory, stat /m/c_optimized.glb'', originalSize = None, compressedSize = None\<rparr>
   \<and> run_commands sample_host ([] @ broken_command # [''never run'']) []
      = (Inl (''Command failed: '' @ broken_command), [broken_command])
   \<and> filter is_glb sample_items \<noteq> []
   \<and> (\<exists>r \<in> set (snd (fst (handleSubmit sample_host sample_values (Inr sample_items) []))). \<not> success r)
   \<and> fst (fst (handleSubmit sample_host sample_values (Inr sample_items) []))
      = count_notice advanced_wording 2 1
   \<and> (0::nat) < 1
   \<and> count_notice advanced_wording 2 1 = warning_sign @ '' 2 optimized, 1 failed''
   \<and> count_notice advanced_wording 0 1 = cross_mark @ '' Failed to optimize 1 file''"
proof -
  note t = error_captured_summary_counts [of sample_host sample_values]
  note u = error_captured_summary_counts [of sample_host all_disabled]
  have s1: "getFileSize sample_host [] ''/m/none.glb'' = Inl ''ENOENT: no such file or directory, stat /m/none.glb''"
    by code_simp
  have b1: "basename ''/m/none.glb'' = ''none.glb''" by code_simp
  from t have "\<forall>p w e. getFileSize sample_host w p = Inl e \<longrightarrow>
      fst (transformGlb sample_host sample_values p w) = \<lparr>file_name = basename p, success = False, error = Some e, originalSize = None, compressedSize = None\<rparr>"
    by (elim conjE)
  from this [rule_format, OF s1] b1
  have 1: "fst (transformGlb sample_host sample_values ''/m/none.glb'' [])
      = \<lparr>file_name = ''none.glb'', success = False, error = Some ''ENOENT: no such file or directory, stat /m/none.glb'', originalSize = None, compressedSize = None\<rparr>"
    by simp
  have s2: "getFileSize sample_host [] ''/m/broken.glb'' = Inr 70" by code_simp
  have r2: "run_commands sample_host (transformGlb_commands sample_host ''/m/broken.glb'' sample_values) []
      = (Inl (''Command failed: '' @ broken_command), [broken_command])"
    by code_simp
  have b2: "basename ''/m/broken.glb'' = ''broken.glb''" by code_simp
  from t have "\<forall>p w n e w'. getFileSize sample_host w p = Inr n
        \<and> run_commands sample_host (transformGlb_commands sample_host p sample_values) w = (Inl e, w') \<longrightarrow>
      fst (transformGlb sample_host sample_values p w) = \<lparr>file_name = basename p, success = False, error = Some e, originalSize = None, compressedSize = None\<rparr>"
    by (elim conjE)
  from this [rule_format, OF conjI [OF s2 r2]] b2
  have 2: "fst (transformGlb sample_host sample_values ''/m/broken.glb'' [])
      = \<lparr>file_name = ''broken.glb'', success = False, error = Some (''Command failed: '' @ broken_command), originalSize = None, compressedSize = None\<rparr>"
    by simp
  let ?copy = "''gltf-transform copy '' @ quoted ''/m/c.glb'' @ '' '' @ quoted ''/m/c_optimized.glb''"
  have s3: "getFileSize sample_host [] ''/m/c.glb'' = Inr 30" by code_simp
  have r3: "run_commands sample_host (transformGlb_commands sample_host ''/m/c.glb'' all_disabled) []
      = (Inr (), [?copy])"
    by code_simp
  have o3: "getFileSize sample_host [?copy] (derived_path ''/m/c.glb'' ''_optimized'')
      = Inl ''ENOENT: no such file or directory, stat /m/c_optimized.glb''"
    by code_simp
  have b3: "basename ''/m/c.glb'' = ''c.glb''" by code_simp
  from u have "\<forall>p w n e w'. getFileSize sample_host w p = Inr n
        \<and> run_commands sample_host (transformGlb_commands sample_host p all_disabled) w = (Inr (), w')
        \<and> getFileSize sample_host w' (derived_path p ''_optimized'') = Inl e \<longrightarrow>
      fst (transformGlb sample_host all_disabled p w) = \<lparr>file_name = basename p, success = False, error = Some e, originalSize = None, compressedSize = None\<rparr>"
    by (elim conjE)
  from this [rule_format, OF conjI [OF s3 conjI [OF r3 o3]]] b3
  have 3: "fst (transformGlb sample_host all_disabled ''/m/c.glb'' [])
      = \<lparr>file_name = ''c.glb'', success = False, error = Some ''ENOENT: no such file or directory, stat /m/c_optimized.glb'', originalSize = None, compressedSize = None\<rparr>"
    by simp
  have c4: "run_commands sample_host [] [] = (Inr (), [])" by simp
  have d4: "execAsync sample_host [] broken_command = (Inl (''Command failed: '' @ broken_command), [broken_command])"
    by code_simp
  from t have "\<forall>pre c post w w1 e w2. run_commands sample_host pre w = (Inr (), w1)
        \<and> execAsync sample_host w1 c = (Inl e, w2) \<longrightarrow>
      run_commands sample_host (pre @ c # post) w = (Inl e, w2)"
    by (elim conjE)
  from this [rule_format, OF conjI [OF c4 d4], of "[''never run'']"]
  have 4: "run_commands sample_host ([] @ broken_command # [''never run'']) []
      = (Inl (''Command failed: '' @ broken_command), [broken_command])" .
  let ?rs = "snd (fst (handleSubmit sample_host sample_values (Inr sample_items) []))"
  have rs: "?rs = [succeeded ''a.glb'' 100 50, failure ''broken.glb'' (''Command failed: '' @ broken_command), succeeded ''b.glb'' 200 100]"
    by code_simp
  have ne: "filter is_glb sample_items \<noteq> []" by (simp add: sample_eligible)
  have ex: "\<exists>r \<in> set ?rs. \<not> success r" unfolding rs by (simp add: failure_def)
  have cs: "length (filter success ?rs) = 2" and cf: "length (filter (\<lambda>r. \<not> success r) ?rs) = 1"
    unfolding rs by (simp_all add: failure_def succeeded_def)
  from t have "\<forall>items w. filter is_glb items \<noteq> []
        \<and> (\<exists>r \<in> set (snd (fst (handleSubmit sample_host sample_values (Inr items) w))). \<not> success r) \<longrightarrow>
      fst (fst (handleSubmit sample_host sample_values (Inr items) w))
        = count_notice advanced_wording
            (length (filter success (snd (fst (handleSubmit sample_host sample_values (Inr items) w)))))
            (length (filter (\<lambda>r. \<not> success r) (snd (fst (handleSubmit sample_host sample_values (Inr items) w)))))"
    by (elim conjE)
  from this [rule_format, OF conjI [OF ne ex]]
  have 5: "fst (fst (handleSubmit sample_host sample_values (Inr sample_items) []))
      = count_notice advanced_wording 2 1"
    by (simp only: cs cf)
  from t have form: "\<forall>s f. 0 < f \<longrightarrow>
        count_notice advanced_wording s f =
          (if s = 0 then cross_mark @ '' Failed to optimize '' @ show_nat f @ '' file'' @ plural f
           else warning_sign @ '' '' @ show_nat s @ '' optimized, '' @ show_nat f @ '' failed'')"
    by (elim conjE)
  have one: "(0::nat) < 1" by simp
  have sn: "show_nat 1 = ''1''" "show_nat (Suc 0) = ''1''" "show_nat 2 = ''2''" by code_simp+
  from form [rule_format, OF one, of 2]
  have 6: "count_notice advanced_wording 2 1 = warning_sign @ '' 2 optimized, 1 failed''"
    by (simp add: sn)
  from form [rule_format, OF one, of 0]
  have 7: "count_notice advanced_wording 0 1 = cross_mark @ '' Failed to optimize 1 file''"
    by (simp add: sn plural_def)
  from 1 2 3 4 ne ex 5 one 6 7 show ?thesis by (intro conjI)
qed

section \<open>Properties of the number model\<close>

lemma pow2_powi: "pow2 e = 2 powi e"
  by (simp add: pow2_def power_int_def power_inverse inverse_eq_divide power_one_over)

lemma binary_exponent_le:
  assumes "0 < a"
  shows "pow2 (binary_exponent a) \<le> a"
proof -
  obtain p q where pq: "quotient_of a = (p, q)" by (cases "quotient_of a")
  then have q: "0 < q" and a: "a = of_int p / of_int q"
    using quotient_of_denom_pos quotient_of_div by blast+
  with assms have p: "0 < p" by (simp add: zero_less_divide_iff)
  let ?e0 = "bitlen p - bitlen q"
  show ?thesis
  proof (cases "pow2 ?e0 \<le> a")
    case True
    with pq show ?thesis by (simp add: binary_exponent_def)
  next
    case False
    with pq have e: "binary_exponent a = ?e0 - 1" by (simp add: binary_exponent_def)
    from p have bp: "1 \<le> bitlen p"
      using bitlen_eq_zero_iff [of p] bitlen_nonneg [of p] by linarith
    from q have bq: "1 \<le> bitlen q"
      using bitlen_eq_zero_iff [of q] bitlen_nonneg [of q] by linarith
    from bitlen_bounds [OF p] have "of_int (2 ^ nat (bitlen p - 1)) \<le> (of_int p :: rat)"
      by (simp only: of_int_le_iff)
    then have lo: "(2::rat) ^ nat (bitlen p - 1) \<le> of_int p" by simp
    from bitlen_bounds [OF q] have "(of_int q :: rat) < of_int (2 ^ nat (bitlen q))"
      by (simp only: of_int_less_iff)
    then have hi: "of_int q \<le> (2::rat) ^ nat (bitlen q)" by simp
    have "?e0 - 1 = (bitlen p - 1) - bitlen q" by simp
    then have "pow2 (?e0 - 1) = 2 powi ((bitlen p - 1) - bitlen q)"
      by (simp only: pow2_powi)
    also have "\<dots> = 2 powi (bitlen p - 1) / 2 powi (bitlen q)"
      by (rule power_int_diff) simp
    also have "\<dots> = 2 ^ nat (bitlen p - 1) / 2 ^ nat (bitlen q)"
      using bp bq by (simp add: power_int_def)
    also have "\<dots> \<le> of_int p / of_int q"
      using lo hi q p by (intro frac_le) simp_all
    finally show ?thesis using e a by simp
  qed
qed

lemma round_half_even_of_int: "round_half_even (of_int n) = n"
  by (simp add: round_half_even_def)

lemma round_double_pos:
  "0 < x \<Longrightarrow>
     round_double x = of_int (round_half_even (x / pow2 (binary_exponent x - 52))) * pow2 (binary_exponent x - 52)"
  by (simp add: round_double_def Let_def)

lemma round_double_dyadic:
  assumes "0 < m" and "m < 2 ^ 53"
  shows "round_double (of_int m / 2 ^ k) = of_int m / 2 ^ k"
proof -
  let ?a = "of_int m / 2 ^ k :: rat"
  let ?e = "binary_exponent ?a"
  from assms have pos: "0 < ?a" by simp
  have a: "?a = of_int m * 2 powi (- int k)"
    by (simp add: power_int_minus divide_inverse)
  from assms have "(of_int m :: rat) < of_int (2 ^ 53)" by (simp only: of_int_less_iff)
  then have m53: "(of_int m :: rat) < 2 powi 53" by simp
  have kpos: "(0::rat) < 2 powi (- int k)" by (rule zero_less_power_int) simp
  have "?a < 2 powi 53 * 2 powi (- int k)"
    unfolding a by (rule mult_strict_right_mono [OF m53 kpos])
  also have "\<dots> = 2 powi (53 + - int k)"
    by (rule power_int_add [symmetric]) simp
  finally have "?a < 2 powi (53 - int k)" by (simp only: diff_conv_add_uminus)
  with binary_exponent_le [OF pos] have "pow2 ?e < 2 powi (53 - int k)"
    by (rule le_less_trans)
  then have "\<not> 2 powi (53 - int k) \<le> (2::rat) powi ?e" by (simp add: pow2_powi)
  then have "\<not> 53 - int k \<le> ?e"
    using power_int_increasing [of "53 - int k" ?e "2::rat"] by auto
  then have d: "0 \<le> 52 - ?e - int k" by simp
  define d where "d = nat (52 - ?e - int k)"
  have "?a / pow2 (?e - 52) = of_int m * (2 powi (- int k) / 2 powi (?e - 52))"
    by (simp add: a pow2_powi)
  also have "2 powi (- int k) / (2::rat) powi (?e - 52) = 2 powi (- int k - (?e - 52))"
    by (rule power_int_diff [symmetric]) simp
  also have "- int k - (?e - 52) = int d" using d by (simp add: d_def)
  finally have q: "?a / pow2 (?e - 52) = of_int (m * 2 ^ d)" by simp
  have "round_double ?a = of_int (round_half_even (?a / pow2 (?e - 52))) * pow2 (?e - 52)"
    using pos by (rule round_double_pos)
  also have "\<dots> = ?a / pow2 (?e - 52) * pow2 (?e - 52)"
    by (simp only: q round_half_even_of_int)
  also have "\<dots> = ?a" by (simp add: pow2_powi)
  finally show ?thesis .
qed

lemma round_double_minus: "round_double (- x) = - round_double x"
  by (simp add: round_double_def Let_def)

lemma round_double_int:
  assumes "\<bar>m\<bar> < 2 ^ 53"
  shows "round_double (of_int m) = of_int m"
proof (cases m "0::int" rule: linorder_cases)
  case equal
  then show ?thesis by (simp add: round_double_def)
next
  case greater
  with assms round_double_dyadic [of m 0] show ?thesis by simp
next
  case less
  with assms round_double_dyadic [of "- m" 0] have "round_double (- of_int m) = - of_int m" by simp
  then show ?thesis by (simp add: round_double_minus)
qed

lemma show_nat_digit: "n < 10 \<Longrightarrow> show_nat n = [digit_char n]"
  by (simp add: show_nat.simps)
lemma show_nat_step: "10 \<le> n \<Longrightarrow> show_nat n = show_nat (n div 10) @ [digit_char (n mod 10)]"
  by (subst show_nat.simps) simp
lemma digit_chars:
  "digit_char 0 = CHR ''0''" "digit_char (Suc 0) = CHR ''1''" "digit_char 1 = CHR ''1''" "digit_char 2 = CHR ''2''"
  "digit_char 3 = CHR ''3''" "digit_char 4 = CHR ''4''" "digit_char 5 = CHR ''5''"
  "digit_char 6 = CHR ''6''" "digit_char 7 = CHR ''7''" "digit_char 8 = CHR ''8''"
  "digit_char 9 = CHR ''9''"
  by code_simp+
lemmas show_nat_eval = show_nat_digit show_nat_step digit_chars
lemma fd150: "fixed_digits 2 150 = ''1.50''" by (simp add: fixed_digits_def Let_def show_nat_eval)
lemma fd100: "fixed_digits 2 100 = ''1.00''" by (simp add: fixed_digits_def Let_def show_nat_eval)
lemma fd15000: "fixed_digits 2 15000 = ''150.00''" by (simp add: fixed_digits_def Let_def show_nat_eval)
lemma fd500: "fixed_digits 1 500 = ''50.0''" by (simp add: fixed_digits_def Let_def show_nat_eval)
lemma fd1500: "fixed_digits 1 1500 = ''150.0''" by (simp add: fixed_digits_def Let_def show_nat_eval)

lemma floor_rat_numeral: "\<lfloor>(numeral a :: rat) / numeral b\<rfloor> = numeral a div numeral b"
  using floor_divide_of_int_eq [of "numeral a" "numeral b", where ?'a = rat] by simp

section \<open>Properties of \<open>formatBytes\<close>\<close>

lemma exact_nonneg:
  assumes "0 < n"
  shows "exact_logIndex n = int (floorlog 1024 n - 1)"
proof -
  from assms have "floorlog 1024 n \<noteq> 0" by (simp add: floorlog_eq_zero_iff)
  then obtain k where k: "floorlog 1024 n = Suc k" by (cases "floorlog 1024 n") simp_all
  show ?thesis unfolding exact_logIndex_def k by simp
qed

lemma exact_bounds:
  assumes "0 < n"
  shows "1024 ^ nat (exact_logIndex n) \<le> n \<and> n < 1024 ^ (nat (exact_logIndex n) + 1)"
proof -
  from assms have "floorlog 1024 n \<noteq> 0" by (simp add: floorlog_eq_zero_iff)
  then obtain k where k: "floorlog 1024 n = Suc k" by (cases "floorlog 1024 n") simp_all
  have e: "nat (exact_logIndex n) = k" unfolding exact_logIndex_def k by simp
  from floorlog_bounds [OF assms, of 1024]
  have "1024 ^ (floorlog 1024 n - 1) \<le> n" and "n < 1024 ^ floorlog 1024 n" by simp_all
  then show ?thesis unfolding e k by simp
qed

lemma exact_small_iff:
  assumes "0 < n"
  shows "exact_logIndex n < 4 \<longleftrightarrow> n < 1024 ^ 4"
proof -
  have "floorlog 1024 n \<le> 4 \<longleftrightarrow> n < 1024 ^ 4"
    by (simp add: floorlog_le_iff)
  then show ?thesis unfolding exact_logIndex_def by linarith
qed

lemma exact_accurate: "log_accurate exact_logIndex"
proof -
  have "4 \<le> exact_logIndex n" if "1024 ^ 4 \<le> n" for n
  proof -
    from that have "0 < n" by (simp add: less_le_trans [of 0 "1024 ^ 4"])
    from exact_small_iff [OF this] that show ?thesis by simp
  qed
  then show ?thesis by (simp add: log_accurate_def)
qed

lemma index_pos: "0 < b \<Longrightarrow> Math_floor_log li b = Fin (of_int (li (nat b)))"
  by (simp add: Math_floor_log_def)

lemma scaled_exact:
  assumes "0 < b" and "b < 2 ^ 53"
  shows "js_div (Fin (of_int b)) (Math_pow 1024 (Fin (of_int (int i)))) = Fin (of_int b / 1024 ^ i)"
proof -
  have "(1024::rat) ^ i = 2 ^ (10 * i)" by (simp add: power_mult)
  with round_double_dyadic [OF assms, of "10 * i"]
  have "round_double (of_int b / 1024 ^ i) = of_int b / 1024 ^ i" by simp
  then show ?thesis by simp
qed

lemma index_text_int:
  "js_index_text xs (Fin (of_int (int i))) = (if i < length xs then xs ! i else ''undefined'')"
  by simp

lemma formatBytes_pos:
  assumes "0 < b" and "b < 2 ^ 53" and "li (nat b) = int i"
  shows "formatBytes li b =
     parseFloat_text (js_toFixed 2 (Fin (of_int b / 1024 ^ i))) @ '' ''
       @ (if i < 4 then sizes ! i else ''undefined'')"
proof -
  have "length sizes = 4" by (simp add: sizes_def)
  with assms(1) show ?thesis
    unfolding formatBytes_def Let_def index_pos [OF assms(1)] assms(3) scaled_exact [OF assms(1,2)]
      index_text_int
    by simp
qed

lemma formatBytes_negative: "b < 0 \<Longrightarrow> formatBytes li b = ''NaN undefined''"
  by (simp add: formatBytes_def Math_floor_log_def parseFloat_text_def)

lemma formatBytes_unit:
  "b \<noteq> 0 \<Longrightarrow> \<exists>n. formatBytes li b = n @ '' '' @ js_index_text sizes (Math_floor_log li b)"
  by (simp add: formatBytes_def Let_def)

lemma accurate_small:
  assumes "log_accurate li" "1 \<le> b" "b < 1024 ^ 4"
  shows "\<exists>i < 4. li (nat b) = int i \<and> 1024 ^ i \<le> b \<and> b < 1024 ^ (i + 1)"
proof -
  from assms(2) have n: "0 < nat b" by simp
  from assms(2,3) have "1 \<le> nat b" and s: "nat b < 1024 ^ 4" by (simp_all add: nat_less_iff)
  with assms(1) have l: "li (nat b) = exact_logIndex (nat b)" by (simp add: log_accurate_def)
  let ?i = "nat (exact_logIndex (nat b))"
  from exact_nonneg [OF n] have i: "exact_logIndex (nat b) = int ?i" by simp
  from exact_small_iff [OF n] s have "?i < 4" by simp
  moreover from l i have "li (nat b) = int ?i" by simp
  moreover from exact_bounds [OF n] have "int (1024 ^ ?i) \<le> int (nat b)"
    and "int (nat b) < int (1024 ^ (?i + 1))"
    by (simp_all only: of_nat_le_iff of_nat_less_iff)
  with assms(2) have "1024 ^ ?i \<le> b" and "b < 1024 ^ (?i + 1)" by simp_all
  ultimately show ?thesis by blast
qed

lemma accurate_large:
  assumes "log_accurate li" "1024 ^ 4 \<le> b"
  shows "4 \<le> li (nat b)"
proof -
  from assms(2) have "1024 ^ 4 \<le> nat b" by simp
  with assms(1) show ?thesis by (simp add: log_accurate_def)
qed

lemma parseFloat_150: "parseFloat_text ''1.50'' = ''1.5''"
  and parseFloat_100: "parseFloat_text ''1.00'' = ''1''"
  and parseFloat_15000: "parseFloat_text ''150.00'' = ''150''"
  by (simp_all add: parseFloat_text_def)

lemma exact_values:
  "exact_logIndex (nat 150) = int 0" "exact_logIndex (nat 1536) = int 1"
  "exact_logIndex (nat 1073741824) = int 3" "exact_logIndex (nat 1099511627776) = int 4"
  by (simp_all add: exact_logIndex_def compute_floorlog)

lemma accurate_at:
  assumes "log_accurate li" "1 \<le> b" "b < 1024 ^ 4"
  shows "li (nat b) = exact_logIndex (nat b)"
proof -
  from assms(2,3) have "1 \<le> nat b" and "nat b < 1024 ^ 4" by (simp_all add: nat_less_iff)
  with assms(1) show ?thesis by (simp add: log_accurate_def)
qed

lemma formatBytes_1536:
  assumes "log_accurate li"
  shows "formatBytes li 1536 = ''1.5 KB''"
proof -
  have i: "li (nat 1536) = int 1"
    using accurate_at [OF assms, of 1536] exact_values by simp
  have t: "js_toFixed 2 (Fin (of_int 1536 / 1024 ^ 1)) = ''1.50''"
    by (simp add: floor_rat_numeral fd150)
  have "formatBytes li 1536 =
     parseFloat_text (js_toFixed 2 (Fin (of_int 1536 / 1024 ^ 1))) @ '' ''
       @ (if (1::nat) < 4 then sizes ! 1 else ''undefined'')"
    using formatBytes_pos [of 1536 li 1, OF _ _ i] by simp
  then show ?thesis
    unfolding t parseFloat_150 by (simp add: sizes_def)
qed

lemma formatBytes_GB:
  assumes "log_accurate li"
  shows "formatBytes li 1073741824 = ''1 GB''"
proof -
  have i: "li (nat 1073741824) = int 3"
    using accurate_at [OF assms, of 1073741824] exact_values by simp
  have t: "js_toFixed 2 (Fin (of_int 1073741824 / 1024 ^ 3)) = ''1.00''"
    by (simp add: floor_rat_numeral fd100)
  have "formatBytes li 1073741824 =
     parseFloat_text (js_toFixed 2 (Fin (of_int 1073741824 / 1024 ^ 3))) @ '' ''
       @ (if (3::nat) < 4 then sizes ! 3 else ''undefined'')"
    using formatBytes_pos [of 1073741824 li 3, OF _ _ i] by simp
  then show ?thesis
    unfolding t parseFloat_100 by (simp add: sizes_def)
qed

lemma formatBytes_150:
  assumes "log_accurate li"
  shows "formatBytes li 150 = ''150 Bytes''"
proof -
  have i: "li (nat 150) = int 0"
    using accurate_at [OF assms, of 150] exact_values by simp
  have t: "js_toFixed 2 (Fin (of_int 150 / 1024 ^ 0)) = ''150.00''"
    by (simp add: floor_rat_numeral fd15000)
  have "formatBytes li 150 =
     parseFloat_text (js_toFixed 2 (Fin (of_int 150 / 1024 ^ 0))) @ '' ''
       @ (if (0::nat) < 4 then sizes ! 0 else ''undefined'')"
    using formatBytes_pos [of 150 li 0, OF _ _ i] by simp
  then show ?thesis
    unfolding t parseFloat_15000 by (simp add: sizes_def)
qed

lemma formatBytes_TB: "formatBytes exact_logIndex 1099511627776 = ''1 undefined''"
proof -
  have t: "js_toFixed 2 (Fin (of_int 1099511627776 / 1024 ^ 4)) = ''1.00''"
    by (simp add: floor_rat_numeral fd100)
  have "formatBytes exact_logIndex 1099511627776 =
     parseFloat_text (js_toFixed 2 (Fin (of_int 1099511627776 / 1024 ^ 4))) @ '' ''
       @ (if (4::nat) < 4 then sizes ! 4 else ''undefined'')"
    using formatBytes_pos [of 1099511627776 exact_logIndex 4, OF _ _ exact_values(4)] by simp
  then show ?thesis
    unfolding t parseFloat_100 by simp
qed

text \<open>
  C8 as stated fails at \<open>1073741824\<close>: the zeros that end the fraction are not printed.
\<close>

theorem formatBytes_two_decimals_counterexample:
  "log_accurate exact_logIndex \<and> formatBytes exact_logIndex 1073741824 = ''1 GB''
   \<and> formatBytes exact_logIndex 1073741824 \<noteq> ''1.00 GB''"
  by (simp add: formatBytes_GB exact_accurate)

text \<open>
  C8 as amended. On an engine whose logarithm is accurate below \<open>1024 ^ 4\<close>:
  \<open>formatBytes 0\<close> is \<open>0 Bytes\<close>; for \<open>1 \<le> bytes < 1024 ^ 4\<close> the unit is the largest of
  Bytes, KB, MB, GB whose size \<open>1024 ^ i\<close> does not exceed \<open>bytes\<close>, and the number printed
  is \<open>bytes / 1024 ^ i\<close> rounded to two decimals, without the zeros that end its fraction.
  So \<open>formatBytes 1536\<close> is \<open>1.5 KB\<close> and \<open>formatBytes 1073741824\<close> is \<open>1 GB\<close>.
\<close>

theorem formatBytes_units:
  assumes "log_accurate li"
  shows "formatBytes li 0 = ''0 Bytes'' \<and> formatBytes li 1536 = ''1.5 KB''
   \<and> formatBytes li 1073741824 = ''1 GB''
   \<and> (\<forall>b. 1 \<le> b \<and> b < 1024 ^ 4 \<longrightarrow>
         (\<exists>i < 4. 1024 ^ i \<le> b \<and> b < 1024 ^ (i + 1)
            \<and> formatBytes li b
                = parseFloat_text (js_toFixed 2 (Fin (of_int b / 1024 ^ i))) @ '' '' @ sizes ! i))"
proof (intro conjI allI impI)
  show "formatBytes li 0 = ''0 Bytes''" by (simp add: formatBytes_def)
  show "formatBytes li 1536 = ''1.5 KB''" by (rule formatBytes_1536 [OF assms])
  show "formatBytes li 1073741824 = ''1 GB''" by (rule formatBytes_GB [OF assms])
next
  fix b :: int
  assume "1 \<le> b \<and> b < 1024 ^ 4"
  then have one: "1 \<le> b" and small: "b < 1024 ^ 4" by simp_all
  then have pos: "0 < b" and b53: "b < 2 ^ 53" by simp_all
  from accurate_small [OF assms one small] obtain i
    where i: "i < 4" "li (nat b) = int i" "1024 ^ i \<le> b" "b < 1024 ^ (i + 1)" by blast
  from formatBytes_pos [of b li i, OF pos b53 i(2)] i(1)
  have "formatBytes li b = parseFloat_text (js_toFixed 2 (Fin (of_int b / 1024 ^ i))) @ '' '' @ sizes ! i"
    by simp
  with i show "\<exists>i < 4. 1024 ^ i \<le> b \<and> b < 1024 ^ (i + 1)
      \<and> formatBytes li b = parseFloat_text (js_toFixed 2 (Fin (of_int b / 1024 ^ i))) @ '' '' @ sizes ! i"
    by blast
qed

theorem formatBytes_units_witness:
  "log_accurate exact_logIndex
   \<and> formatBytes exact_logIndex 0 = ''0 Bytes'' \<and> formatBytes exact_logIndex 1536 = ''1.5 KB''
   \<and> formatBytes exact_logIndex 1073741824 = ''1 GB''
   \<and> (1::int) \<le> 1536 \<and> (1536::int) < 1024 ^ 4
   \<and> (\<exists>i < 4. 1024 ^ i \<le> (1536::int) \<and> (1536::int) < 1024 ^ (i + 1)
         \<and> formatBytes exact_logIndex 1536
             = parseFloat_text (js_toFixed 2 (Fin (of_int 1536 / 1024 ^ i))) @ '' '' @ sizes ! i)"
proof -
  note t = formatBytes_units [OF exact_accurate]
  have h: "(1::int) \<le> 1536 \<and> (1536::int) < 1024 ^ 4" by simp
  from t have "\<forall>b. 1 \<le> b \<and> b < 1024 ^ 4 \<longrightarrow>
         (\<exists>i < 4. 1024 ^ i \<le> b \<and> b < 1024 ^ (i + 1)
            \<and> formatBytes exact_logIndex b
                = parseFloat_text (js_toFixed 2 (Fin (of_int b / 1024 ^ i))) @ '' '' @ sizes ! i)"
    by (elim conjE)
  from this [rule_format, OF h] t h exact_accurate show ?thesis by (intro conjI) simp_all
qed

lemma sizes_no_undefined: "''undefined'' \<notin> set sizes"
  by (simp add: sizes_def)

lemma index_text_of_int:
  "js_index_text xs (Fin (of_int k)) = (if 0 \<le> k \<and> nat k < length xs then xs ! nat k else ''undefined'')"
  by simp

lemma index_in_table:
  assumes "log_accurate li" "b \<noteq> 0"
  shows "js_index_text sizes (Math_floor_log li b) \<in> set sizes \<longleftrightarrow> 1 \<le> b \<and> b < 1024 ^ 4"
proof -
  have len: "length sizes = 4" by (simp add: sizes_def)
  consider "b < 0" | "1 \<le> b" "b < 1024 ^ 4" | "1024 ^ 4 \<le> b" using assms(2) by linarith
  then show ?thesis
  proof cases
    case 1
    then have "js_index_text sizes (Math_floor_log li b) = ''undefined''"
      by (simp add: Math_floor_log_def)
    with sizes_no_undefined 1 show ?thesis by simp
  next
    case 2
    from accurate_small [OF assms(1) 2] obtain i where i: "i < 4" "li (nat b) = int i" by blast
    from 2 have "0 < b" by simp
    then have "js_index_text sizes (Math_floor_log li b) = sizes ! i"
      unfolding index_pos [OF \<open>0 < b\<close>] i(2) index_text_of_int using i(1) len by simp
    moreover from i(1) len have "sizes ! i \<in> set sizes" by simp
    ultimately show ?thesis using 2 by simp
  next
    case 3
    then have pos: "0 < b" by simp
    from accurate_large [OF assms(1) 3] have "\<not> nat (li (nat b)) < length sizes"
      unfolding len by simp
    then have "js_index_text sizes (Math_floor_log li b) = ''undefined''"
      unfolding index_pos [OF pos] index_text_of_int by simp
    with sizes_no_undefined 3 show ?thesis by simp
  qed
qed

lemma formatBytes_too_large:
  assumes "log_accurate li" "1024 ^ 4 \<le> b"
  shows "\<exists>n. formatBytes li b = n @ '' undefined''"
proof -
  from assms(2) have nz: "b \<noteq> 0" by simp
  from index_in_table [OF assms(1) nz] assms(2)
  have "js_index_text sizes (Math_floor_log li b) \<notin> set sizes" by simp
  moreover have "js_index_text sizes x \<in> set sizes \<or> js_index_text sizes x = ''undefined''" for x
    by (cases x) simp_all
  ultimately have "js_index_text sizes (Math_floor_log li b) = ''undefined''" by blast
  with formatBytes_unit [OF nz, of li] show ?thesis by simp
qed

lemma foldl_add_sum: "foldl (\<lambda>acc r. acc + f r) (a::nat) rs = a + sum_list (map f rs)"
  by (induction rs arbitrary: a) (simp_all add: add.assoc)

lemma total_original_sum: "total_original rs = (\<Sum>r\<leftarrow>rs. size_or_zero (originalSize r))"
  by (simp add: total_original_def foldl_add_sum)

lemma total_compressed_sum: "total_compressed rs = (\<Sum>r\<leftarrow>rs. size_or_zero (compressedSize r))"
  by (simp add: total_compressed_def foldl_add_sum)

lemma summary_all_succeeded:
  fixes rs :: "CompressionResult list"
  assumes "\<forall>r \<in> set rs. success r"
  shows "summary li wording rs =
     check_mark @ '' '' @ fst wording @ show_nat (length rs) @ '' file'' @ plural (length rs)
       @ '' - Saved '' @ formatBytes li (int (total_original rs) - int (total_compressed rs))
       @ '' ('' @ savings_percent (int (total_original rs) - int (total_compressed rs)) (total_original rs)
       @ ''%)''"
proof -
  from assms have s: "filter success rs = rs" and f: "filter (\<lambda>r. \<not> success r) rs = []"
    by (simp_all add: filter_id_conv filter_empty_conv)
  show ?thesis
    unfolding summary_def Let_def s f by (simp add: case_prod_beta)
qed

lemma run_batch_notice:
  assumes "filter is_glb items \<noteq> []"
  shows "fst (fst (run_batch f li wording ns (Inr items) w))
     = summary li wording (snd (fst (run_batch f li wording ns (Inr items) w)))"
proof -
  from assms have "items \<noteq> []" by auto
  then have "length items \<noteq> 0" by simp
  moreover from assms have "length (filter is_glb items) \<noteq> 0" by simp
  ultimately show ?thesis
    unfolding run_batch_def Let_def
    by (simp only: sum.case if_False case_prod_beta fst_conv snd_conv)
qed

lemma run_batch_results:
  assumes "filter is_glb items \<noteq> []"
  shows "snd (fst (run_batch f li wording ns (Inr items) w)) = fst (process_all f (filter is_glb items) w)"
proof -
  from assms have "items \<noteq> []" by auto
  then have "length items \<noteq> 0" by simp
  moreover from assms have "length (filter is_glb items) \<noteq> 0" by simp
  ultimately show ?thesis
    unfolding run_batch_def Let_def
    by (simp only: sum.case if_False case_prod_beta fst_conv snd_conv)
qed

lemma processGlbFiles_notice:
  assumes "filter is_glb items \<noteq> []"
  shows "fst (fst (processGlbFiles h m modeName (Inr items) w))
     = summary (logIndex h) (mode_wording modeName) (snd (fst (processGlbFiles h m modeName (Inr items) w)))"
  unfolding processGlbFiles_def by (rule run_batch_notice [OF assms])

lemma processGlbFiles_results:
  assumes "filter is_glb items \<noteq> []"
  shows "snd (fst (processGlbFiles h m modeName (Inr items) w))
     = fst (process_all (compressGlb h m) (filter is_glb items) w)"
  unfolding processGlbFiles_def by (rule run_batch_results [OF assms])

lemma round_three_halves: "round_double (3 / 2) = 3 / 2"
  using round_double_dyadic [of 3 1] by simp

lemma round_half: "round_double (1 / 2) = 1 / 2"
  using round_double_dyadic [of 1 1] by simp

lemma round_numeral: "round_double 50 = 50" "round_double 150 = 150"
  using round_double_int [of 50] round_double_int [of 150] by simp_all

lemma fd_Suc: "fixed_digits (Suc 0) 500 = ''50.0''" "fixed_digits (Suc 0) 1500 = ''150.0''"
  using fd500 fd1500 by simp_all

lemma percent_50: "savings_percent 150 300 = ''50.0''"
  by (simp add: savings_percent_def round_half round_numeral floor_rat_numeral fd_Suc)

lemma percent_minus_150: "savings_percent (- 15) 10 = ''-150.0''"
  by (simp add: savings_percent_def round_double_minus round_three_halves round_numeral
      floor_rat_numeral fd_Suc)

lemma percent_zero_total:
  "savings_percent (int 0 - int c) 0 = (if c = 0 then ''NaN'' else ''-Infinity'')"
  by (simp add: savings_percent_def)

lemma not_unit_suffix:
  assumes "u \<in> set sizes"
  shows "\<not> suffix ('' '' @ u) (n @ '' undefined'')"
proof
  assume "suffix ('' '' @ u) (n @ '' undefined'')"
  then obtain zs where eq: "n @ '' undefined'' = zs @ '' '' @ u" by (auto simp: suffix_def)
  from assms have ne: "u \<noteq> []" and l: "last u \<noteq> CHR ''d''" by (auto simp: sizes_def)
  have "last (n @ '' undefined'') = CHR ''d''" by simp
  moreover from ne have "last (zs @ '' '' @ u) = last u" by simp
  ultimately show False using eq l by simp
qed

lemma index_in_bounds:
  assumes "log_accurate li" "b \<noteq> 0"
  shows "(\<exists>k. Math_floor_log li b = Fin (of_int k) \<and> 0 \<le> k \<and> k < int (length sizes))
     \<longleftrightarrow> 1 \<le> b \<and> b < 1024 ^ 4"
proof -
  have len: "length sizes = 4" by (simp add: sizes_def)
  consider "b < 0" | "1 \<le> b" "b < 1024 ^ 4" | "1024 ^ 4 \<le> b" using assms(2) by linarith
  then show ?thesis
  proof cases
    case 1
    then have "Math_floor_log li b = NaN" by (simp add: Math_floor_log_def)
    with 1 show ?thesis by simp
  next
    case 2
    from accurate_small [OF assms(1) 2] obtain i where i: "i < 4" "li (nat b) = int i" by blast
    from 2 have "0 < b" by simp
    from index_pos [OF this, of li] i
    have "Math_floor_log li b = Fin (of_int (int i)) \<and> 0 \<le> int i \<and> int i < int (length sizes)"
      unfolding len by simp
    then have "\<exists>k. Math_floor_log li b = Fin (of_int k) \<and> 0 \<le> k \<and> k < int (length sizes)" ..
    with 2 show ?thesis by simp
  next
    case 3
    then have pos: "0 < b" by simp
    from accurate_large [OF assms(1) 3] have g: "4 \<le> li (nat b)" .
    have "\<not> (\<exists>k. Math_floor_log li b = Fin (of_int k) \<and> 0 \<le> k \<and> k < int (length sizes))"
    proof
      assume "\<exists>k. Math_floor_log li b = Fin (of_int k) \<and> 0 \<le> k \<and> k < int (length sizes)"
      then obtain k where k: "Math_floor_log li b = Fin (of_int k)" "k < int (length sizes)" by blast
      from k(1) have "k = li (nat b)" unfolding index_pos [OF pos] by simp
      with k(2) g len show False by simp
    qed
    with 3 show ?thesis by simp
  qed
qed

lemma unit_printed:
  assumes "log_accurate li"
  shows "(\<exists>u \<in> set sizes. suffix ('' '' @ u) (formatBytes li b)) \<longleftrightarrow> b = 0 \<or> (1 \<le> b \<and> b < 1024 ^ 4)"
proof -
  have len: "length sizes = 4" by (simp add: sizes_def)
  consider "b = 0" | "b < 0" | "1 \<le> b" "b < 1024 ^ 4" | "1024 ^ 4 \<le> b" by linarith
  then show ?thesis
  proof cases
    case 1
    have "''Bytes'' \<in> set sizes" by (simp add: sizes_def)
    moreover have "suffix ('' '' @ ''Bytes'') (formatBytes li 0)"
      by (simp add: formatBytes_def suffix_def)
    ultimately show ?thesis using 1 by blast
  next
    case 2
    then have "formatBytes li b = ''NaN'' @ '' undefined''" by (simp add: formatBytes_negative)
    with not_unit_suffix [of _ "''NaN''"] 2 show ?thesis by auto
  next
    case 3
    then have pos: "0 < b" and b53: "b < 2 ^ 53" by simp_all
    from accurate_small [OF assms 3] obtain i where i: "i < 4" "li (nat b) = int i" by blast
    from formatBytes_pos [of b li i, OF pos b53 i(2)] i(1)
    have "suffix ('' '' @ sizes ! i) (formatBytes li b)" by (simp add: suffix_def)
    moreover from i(1) len have "sizes ! i \<in> set sizes" by simp
    ultimately show ?thesis using 3 by blast
  next
    case 4
    from formatBytes_too_large [OF assms 4] obtain n where "formatBytes li b = n @ '' undefined''" ..
    with not_unit_suffix [of _ n] 4 show ?thesis by auto
  qed
qed

text \<open>
  C10. The unit of a non-zero \<open>bytes\<close> is read from the four-entry table at the index
  \<open>floor (log bytes / log 1024)\<close>. On an engine whose logarithm is accurate below
  \<open>1024 ^ 4\<close> and puts nothing from \<open>1024 ^ 4\<close> on below \<open>4\<close>, that index lies in the table
  exactly when \<open>1 \<le> bytes < 1024 ^ 4\<close>, and the text ends with a unit of the table exactly
  when \<open>bytes = 0\<close> or \<open>1 \<le> bytes < 1024 ^ 4\<close>. From \<open>1024 ^ 4\<close> on the unit printed is
  \<open>undefined\<close>, and a negative \<open>bytes\<close> gives \<open>NaN undefined\<close>. The latter is what an
  all-succeeded batch shows after \<open>Saved\<close> when the outputs are larger in total than the
  originals.
\<close>

theorem formatBytes_table_bounds:
  assumes "log_accurate li"
  shows "(\<forall>b. b \<noteq> 0 \<longrightarrow>
      ((\<exists>k. Math_floor_log li b = Fin (of_int k) \<and> 0 \<le> k \<and> k < int (length sizes))
         \<longleftrightarrow> 1 \<le> b \<and> b < 1024 ^ 4))
   \<and> (\<forall>b. b \<noteq> 0 \<longrightarrow>
        (js_index_text sizes (Math_floor_log li b) \<in> set sizes \<longleftrightarrow> 1 \<le> b \<and> b < 1024 ^ 4))
   \<and> (\<forall>b. (\<exists>u \<in> set sizes. suffix ('' '' @ u) (formatBytes li b))
        \<longleftrightarrow> b = 0 \<or> (1 \<le> b \<and> b < 1024 ^ 4))
   \<and> (\<forall>b. 1024 ^ 4 \<le> b \<longrightarrow> (\<exists>n. formatBytes li b = n @ '' undefined''))
   \<and> (\<forall>b. b < 0 \<longrightarrow> formatBytes li b = ''NaN undefined'')
   \<and> (\<forall>wording (rs :: CompressionResult list).
         (\<forall>r \<in> set rs. success r) \<and> total_original rs < total_compressed rs \<longrightarrow>
         summary li wording rs =
           check_mark @ '' '' @ fst wording @ show_nat (length rs) @ '' file'' @ plural (length rs)
             @ '' - Saved NaN undefined (''
             @ savings_percent (int (total_original rs) - int (total_compressed rs)) (total_original rs)
             @ ''%)'')
   \<and> (\<forall>(h :: 'w host) v items w. filter is_glb items \<noteq> [] \<longrightarrow>
         fst (fst (handleSubmit h v (Inr items) w))
           = summary (logIndex h) advanced_wording (snd (fst (handleSubmit h v (Inr items) w))))
   \<and> (\<forall>(h :: 'w host) m modeName items w. filter is_glb items \<noteq> [] \<longrightarrow>
         fst (fst (processGlbFiles h m modeName (Inr items) w))
           = summary (logIndex h) (mode_wording modeName)
               (snd (fst (processGlbFiles h m modeName (Inr items) w))))"
proof (intro conjI allI impI)
  fix b :: int assume "b \<noteq> 0"
  then show "(\<exists>k. Math_floor_log li b = Fin (of_int k) \<and> 0 \<le> k \<and> k < int (length sizes))
      \<longleftrightarrow> 1 \<le> b \<and> b < 1024 ^ 4"
    by (rule index_in_bounds [OF assms])
next
  fix b :: int assume "b \<noteq> 0"
  then show "js_index_text sizes (Math_floor_log li b) \<in> set sizes \<longleftrightarrow> 1 \<le> b \<and> b < 1024 ^ 4"
    by (rule index_in_table [OF assms])
next
  fix b :: int
  show "(\<exists>u \<in> set sizes. suffix ('' '' @ u) (formatBytes li b)) \<longleftrightarrow> b = 0 \<or> (1 \<le> b \<and> b < 1024 ^ 4)"
    by (rule unit_printed [OF assms])
next
  fix b :: int assume "1024 ^ 4 \<le> b"
  then show "\<exists>n. formatBytes li b = n @ '' undefined''"
    by (rule formatBytes_too_large [OF assms])
next
  fix b :: int assume "b < 0"
  then show "formatBytes li b = ''NaN undefined''"
    by (rule formatBytes_negative)
next
  fix wording :: "string \<times> string \<times> string" and rs :: "CompressionResult list"
  assume a: "(\<forall>r \<in> set rs. success r) \<and> total_original rs < total_compressed rs"
  then have "int (total_original rs) - int (total_compressed rs) < 0" by simp
  then have "formatBytes li (int (total_original rs) - int (total_compressed rs)) = ''NaN undefined''"
    by (rule formatBytes_negative)
  with summary_all_succeeded [of rs li wording] a
  show "summary li wording rs =
           check_mark @ '' '' @ fst wording @ show_nat (length rs) @ '' file'' @ plural (length rs)
             @ '' - Saved NaN undefined (''
             @ savings_percent (int (total_original rs) - int (total_compressed rs)) (total_original rs)
             @ ''%)''"
    by simp
next
  fix h :: "'w host" and v items w
  assume "filter is_glb items \<noteq> []"
  then show "fst (fst (handleSubmit h v (Inr items) w))
      = summary (logIndex h) advanced_wording (snd (fst (handleSubmit h v (Inr items) w)))"
    by (rule handleSubmit_notice)
next
  fix h :: "'w host" and m modeName items w
  assume "filter is_glb items \<noteq> []"
  then show "fst (fst (processGlbFiles h m modeName (Inr items) w))
      = summary (logIndex h) (mode_wording modeName)
          (snd (fst (processGlbFiles h m modeName (Inr items) w)))"
    by (rule processGlbFiles_notice)
qed

lemma sample_log: "logIndex sample_host = exact_logIndex"
  by (simp add: sample_host_def)

lemma sample_larger_output:
  "fst (process_all (transformGlb sample_host sample_values) [''/m/d.glb''] [])
     = [succeeded ''d.glb'' 10 25]"
  by code_simp

lemma is_glb_d: "filter is_glb [''/m/d.glb''] = [''/m/d.glb'']"
  by code_simp

lemma show_nat_small: "show_nat (Suc 0) = ''1''" "show_nat 1 = ''1''" "show_nat 2 = ''2''"
  by (simp_all add: show_nat_eval)

theorem formatBytes_table_bounds_witness:
  "log_accurate exact_logIndex
   \<and> (1536::int) \<noteq> 0
   \<and> (\<exists>k. Math_floor_log exact_logIndex 1536 = Fin (of_int k) \<and> 0 \<le> k \<and> k < int (length sizes))
   \<and> js_index_text sizes (Math_floor_log exact_logIndex 1536) \<in> set sizes
   \<and> (\<exists>u \<in> set sizes. suffix ('' '' @ u) (formatBytes exact_logIndex 1536))
   \<and> (1024::int) ^ 4 \<le> 1099511627776
   \<and> js_index_text sizes (Math_floor_log exact_logIndex 1099511627776) \<notin> set sizes
   \<and> (\<exists>n. formatBytes exact_logIndex 1099511627776 = n @ '' undefined'')
   \<and> (- 15 :: int) < 0 \<and> formatBytes exact_logIndex (- 15) = ''NaN undefined''
   \<and> success (succeeded ''d.glb'' 10 25)
   \<and> total_original [succeeded ''d.glb'' 10 25] < total_compressed [succeeded ''d.glb'' 10 25]
   \<and> summary exact_logIndex advanced_wording [succeeded ''d.glb'' 10 25]
       = check_mark @ '' Optimized 1 file - Saved NaN undefined (-150.0%)''
   \<and> filter is_glb [''/m/d.glb''] \<noteq> []
   \<and> fst (fst (handleSubmit sample_host sample_values (Inr [''/m/d.glb'']) []))
       = check_mark @ '' Optimized 1 file - Saved NaN undefined (-150.0%)''
   \<and> fst (fst (processGlbFiles sample_host Draco ''Draco'' (Inr [''/m/d.glb'']) []))
       = summary exact_logIndex (mode_wording ''Draco'')
           (snd (fst (processGlbFiles sample_host Draco ''Draco'' (Inr [''/m/d.glb'']) [])))"
proof -
  let ?rs = "[succeeded ''d.glb'' 10 25]"
  note t = formatBytes_table_bounds [OF exact_accurate, where ?'w = "string list"]
  have nz: "(1536::int) \<noteq> 0" and big: "(1024::int) ^ 4 \<le> 1099511627776"
    and neg: "(- 15 :: int) < 0" and big_nz: "(1099511627776::int) \<noteq> 0" by simp_all
  have range: "(1::int) \<le> 1536 \<and> (1536::int) < 1024 ^ 4" by simp
  have out: "\<not> ((1::int) \<le> 1099511627776 \<and> (1099511627776::int) < 1024 ^ 4)" by simp
  from t have c1: "\<forall>b. b \<noteq> 0 \<longrightarrow>
      ((\<exists>k. Math_floor_log exact_logIndex b = Fin (of_int k) \<and> 0 \<le> k \<and> k < int (length sizes))
         \<longleftrightarrow> 1 \<le> b \<and> b < 1024 ^ 4)" by (elim conjE)
  from t have c2: "\<forall>b. b \<noteq> 0 \<longrightarrow>
        (js_index_text sizes (Math_floor_log exact_logIndex b) \<in> set sizes \<longleftrightarrow> 1 \<le> b \<and> b < 1024 ^ 4)"
    by (elim conjE)
  from t have c3: "\<forall>b. (\<exists>u \<in> set sizes. suffix ('' '' @ u) (formatBytes exact_logIndex b))
        \<longleftrightarrow> b = 0 \<or> (1 \<le> b \<and> b < 1024 ^ 4)" by (elim conjE)
  from t have c4: "\<forall>b. 1024 ^ 4 \<le> b \<longrightarrow> (\<exists>n. formatBytes exact_logIndex b = n @ '' undefined'')"
    by (elim conjE)
  from t have c5: "\<forall>b. b < 0 \<longrightarrow> formatBytes exact_logIndex b = ''NaN undefined''" by (elim conjE)
  from t have c6: "\<forall>wording (rs :: CompressionResult list).
         (\<forall>r \<in> set rs. success r) \<and> total_original rs < total_compressed rs \<longrightarrow>
         summary exact_logIndex wording rs =
           check_mark @ '' '' @ fst wording @ show_nat (length rs) @ '' file'' @ plural (length rs)
             @ '' - Saved NaN undefined (''
             @ savings_percent (int (total_original rs) - int (total_compressed rs)) (total_original rs)
             @ ''%)''" by (elim conjE)
  from t have c7: "\<forall>(h :: string list host) v items w. filter is_glb items \<noteq> [] \<longrightarrow>
         fst (fst (handleSubmit h v (Inr items) w))
           = summary (logIndex h) advanced_wording (snd (fst (handleSubmit h v (Inr items) w)))"
    by (elim conjE)
  from t have c8: "\<forall>(h :: string list host) m modeName items w. filter is_glb items \<noteq> [] \<longrightarrow>
         fst (fst (processGlbFiles h m modeName (Inr items) w))
           = summary (logIndex h) (mode_wording modeName)
               (snd (fst (processGlbFiles h m modeName (Inr items) w)))"
    by (elim conjE)
  have s: "success (succeeded ''d.glb'' 10 25)" by (simp add: succeeded_def)
  have tot: "total_original ?rs = 10" "total_compressed ?rs = 25"
    by (simp_all add: total_original_def total_compressed_def succeeded_def size_or_zero_def)
  then have less: "total_original ?rs < total_compressed ?rs" by simp
  from s less have h6: "(\<forall>r \<in> set ?rs. success r) \<and> total_original ?rs < total_compressed ?rs" by simp
  have shown: "summary exact_logIndex advanced_wording ?rs
       = check_mark @ '' Optimized 1 file - Saved NaN undefined (-150.0%)''"
    unfolding c6 [rule_format, OF h6] tot
    by (simp add: advanced_wording_def plural_def show_nat_small percent_minus_150)
  have ne: "filter is_glb [''/m/d.glb''] \<noteq> []" unfolding is_glb_d by simp
  have rs: "snd (fst (handleSubmit sample_host sample_values (Inr [''/m/d.glb'']) [])) = ?rs"
    unfolding handleSubmit_results [OF ne] is_glb_d by (rule sample_larger_output)
  have run: "fst (fst (handleSubmit sample_host sample_values (Inr [''/m/d.glb'']) []))
       = check_mark @ '' Optimized 1 file - Saved NaN undefined (-150.0%)''"
    unfolding c7 [rule_format, OF ne] rs sample_log by (rule shown)
  have modes: "fst (fst (processGlbFiles sample_host Draco ''Draco'' (Inr [''/m/d.glb'']) []))
       = summary exact_logIndex (mode_wording ''Draco'')
           (snd (fst (processGlbFiles sample_host Draco ''Draco'' (Inr [''/m/d.glb'']) [])))"
    unfolding c8 [rule_format, OF ne] sample_log ..
  from c1 [rule_format, OF nz] range
  have w1: "\<exists>k. Math_floor_log exact_logIndex 1536 = Fin (of_int k) \<and> 0 \<le> k \<and> k < int (length sizes)"
    by simp
  from c2 [rule_format, OF nz] range
  have w2: "js_index_text sizes (Math_floor_log exact_logIndex 1536) \<in> set sizes" by simp
  from c3 [rule_format, of 1536] range
  have w3: "\<exists>u \<in> set sizes. suffix ('' '' @ u) (formatBytes exact_logIndex 1536)" by simp
  from c2 [rule_format, OF big_nz] out
  have w4: "js_index_text sizes (Math_floor_log exact_logIndex 1099511627776) \<notin> set sizes" by simp
  note w5 = c4 [rule_format, OF big]
  note w6 = c5 [rule_format, OF neg]
  show ?thesis
    by (intro conjI exact_accurate nz w1 w2 w3 big w4 w5 neg w6 s less shown ne run modes)
qed

lemma sample_two_files:
  "fst (process_all (transformGlb sample_host sample_values) [''/m/a.glb'', ''/m/b.glb''] [])
     = [succeeded ''a.glb'' 100 50, succeeded ''b.glb'' 200 100]"
  by code_simp

lemma is_glb_ab: "filter is_glb [''/m/a.glb'', ''/m/b.glb''] = [''/m/a.glb'', ''/m/b.glb'']"
  by code_simp

lemma show_nat_two: "show_nat (Suc (Suc 0)) = ''2''"
  using show_nat_small(3) by (simp add: numeral_2_eq_2)

text \<open>
  C7. For a batch in which every file succeeded the notification is the check-mark text
  whose percentage is \<open>((savings / totalOriginal) * 100).toFixed(1)\<close>, where
  \<open>totalOriginal\<close> and \<open>totalCompressed\<close> are the sums of the two size fields and
  \<open>savings\<close> their difference. Two files of 100 and 200 bytes optimized to 50 and 100
  give \<open>50.0\<close>. Nothing guards the division: with a zero total the percentage printed is
  \<open>NaN\<close> (nothing written either) or \<open>-Infinity\<close>. Both commands show this text.
\<close>

theorem percent_saved:
  "(\<forall>li wording (rs :: CompressionResult list). (\<forall>r \<in> set rs. success r) \<longrightarrow>
      summary li wording rs =
        check_mark @ '' '' @ fst wording @ show_nat (length rs) @ '' file'' @ plural (length rs)
          @ '' - Saved ''
          @ formatBytes li (int (\<Sum>r\<leftarrow>rs. size_or_zero (originalSize r))
                            - int (\<Sum>r\<leftarrow>rs. size_or_zero (compressedSize r)))
          @ '' (''
          @ js_toFixed 1
              (js_mul
                 (js_div (Fin (of_int (int (\<Sum>r\<leftarrow>rs. size_or_zero (originalSize r))
                                        - int (\<Sum>r\<leftarrow>rs. size_or_zero (compressedSize r)))))
                         (Fin (of_nat (\<Sum>r\<leftarrow>rs. size_or_zero (originalSize r)))))
                 (Fin 100))
          @ ''%)'')
   \<and> (\<forall>li wording x y.
        summary li wording [succeeded x 100 50, succeeded y 200 100]
          = check_mark @ '' '' @ fst wording @ ''2 files - Saved '' @ formatBytes li 150 @ '' (50.0%)'')
   \<and> (\<forall>li wording (rs :: CompressionResult list).
        (\<forall>r \<in> set rs. success r) \<and> (\<Sum>r\<leftarrow>rs. size_or_zero (originalSize r)) = 0 \<longrightarrow>
        summary li wording rs =
          check_mark @ '' '' @ fst wording @ show_nat (length rs) @ '' file'' @ plural (length rs)
            @ '' - Saved '' @ formatBytes li (- int (\<Sum>r\<leftarrow>rs. size_or_zero (compressedSize r)))
            @ '' (''
            @ (if (\<Sum>r\<leftarrow>rs. size_or_zero (compressedSize r)) = 0 then ''NaN'' else ''-Infinity'')
            @ ''%)'')
   \<and> (\<forall>(h :: 'w host) v items w. filter is_glb items \<noteq> [] \<longrightarrow>
         fst (fst (handleSubmit h v (Inr items) w))
           = summary (logIndex h) advanced_wording (snd (fst (handleSubmit h v (Inr items) w))))
   \<and> (\<forall>(h :: 'w host) m modeName items w. filter is_glb items \<noteq> [] \<longrightarrow>
         fst (fst (processGlbFiles h m modeName (Inr items) w))
           = summary (logIndex h) (mode_wording modeName)
               (snd (fst (processGlbFiles h m modeName (Inr items) w))))"
proof (intro conjI allI impI)
  fix li and wording :: "string \<times> string \<times> string" and rs :: "CompressionResult list"
  assume "\<forall>r \<in> set rs. success r"
  from summary_all_succeeded [OF this, of li wording]
  show "summary li wording rs =
        check_mark @ '' '' @ fst wording @ show_nat (length rs) @ '' file'' @ plural (length rs)
          @ '' - Saved ''
          @ formatBytes li (int (\<Sum>r\<leftarrow>rs. size_or_zero (originalSize r))
                            - int (\<Sum>r\<leftarrow>rs. size_or_zero (compressedSize r)))
          @ '' (''
          @ js_toFixed 1
              (js_mul
                 (js_div (Fin (of_int (int (\<Sum>r\<leftarrow>rs. size_or_zero (originalSize r))
                                        - int (\<Sum>r\<leftarrow>rs. size_or_zero (compressedSize r)))))
                         (Fin (of_nat (\<Sum>r\<leftarrow>rs. size_or_zero (originalSize r)))))
                 (Fin 100))
          @ ''%)''"
    unfolding savings_percent_def total_original_sum total_compressed_sum .
next
  fix li and wording :: "string \<times> string \<times> string" and x y :: string
  let ?rs = "[succeeded x 100 50, succeeded y 200 100]"
  have s: "\<forall>r \<in> set ?rs. success r" by (simp add: succeeded_def)
  have tot: "total_original ?rs = 300" "total_compressed ?rs = 150"
    by (simp_all add: total_original_def total_compressed_def succeeded_def size_or_zero_def)
  show "summary li wording ?rs
      = check_mark @ '' '' @ fst wording @ ''2 files - Saved '' @ formatBytes li 150 @ '' (50.0%)''"
    unfolding summary_all_succeeded [OF s] tot
    by (simp add: plural_def show_nat_two percent_50)
next
  fix li and wording :: "string \<times> string \<times> string" and rs :: "CompressionResult list"
  assume a: "(\<forall>r \<in> set rs. success r) \<and> (\<Sum>r\<leftarrow>rs. size_or_zero (originalSize r)) = 0"
  then have s: "\<forall>r \<in> set rs. success r" and z: "total_original rs = 0"
    by (simp_all add: total_original_sum)
  have p: "savings_percent (int 0 - int (total_compressed rs)) 0
      = (if total_compressed rs = 0 then ''NaN'' else ''-Infinity'')"
    by (rule percent_zero_total)
  show "summary li wording rs =
          check_mark @ '' '' @ fst wording @ show_nat (length rs) @ '' file'' @ plural (length rs)
            @ '' - Saved '' @ formatBytes li (- int (\<Sum>r\<leftarrow>rs. size_or_zero (compressedSize r)))
            @ '' (''
            @ (if (\<Sum>r\<leftarrow>rs. size_or_zero (compressedSize r)) = 0 then ''NaN'' else ''-Infinity'')
            @ ''%)''"
    unfolding summary_all_succeeded [OF s] z p
    unfolding total_compressed_sum by simp
next
  fix h :: "'w host" and v items w
  assume "filter is_glb items \<noteq> []"
  then show "fst (fst (handleSubmit h v (Inr items) w))
      = summary (logIndex h) advanced_wording (snd (fst (handleSubmit h v (Inr items) w)))"
    by (rule handleSubmit_notice)
next
  fix h :: "'w host" and m modeName items w
  assume "filter is_glb items \<noteq> []"
  then show "fst (fst (processGlbFiles h m modeName (Inr items) w))
      = summary (logIndex h) (mode_wording modeName)
          (snd (fst (processGlbFiles h m modeName (Inr items) w)))"
    by (rule processGlbFiles_notice)
qed

theorem percent_saved_witness:
  "success (succeeded ''a.glb'' 100 50) \<and> success (succeeded ''b.glb'' 200 100)
   \<and> summary exact_logIndex advanced_wording [succeeded ''a.glb'' 100 50, succeeded ''b.glb'' 200 100]
       = check_mark @ '' Optimized 2 files - Saved 150 Bytes (50.0%)''
   \<and> js_toFixed 1 (js_mul (js_div (Fin (of_int (int (100 + 200) - int (50 + 100))))
                                  (Fin (of_nat (100 + 200)))) (Fin 100)) = ''50.0''
   \<and> success (succeeded ''e.glb'' 0 0)
   \<and> summary exact_logIndex advanced_wording [succeeded ''e.glb'' 0 0]
       = check_mark @ '' Optimized 1 file - Saved 0 Bytes (NaN%)''
   \<and> summary exact_logIndex advanced_wording [succeeded ''e.glb'' 0 7]
       = check_mark @ '' Optimized 1 file - Saved NaN undefined (-Infinity%)''
   \<and> filter is_glb [''/m/a.glb'', ''/m/b.glb''] \<noteq> []
   \<and> fst (fst (handleSubmit sample_host sample_values (Inr [''/m/a.glb'', ''/m/b.glb'']) []))
       = check_mark @ '' Optimized 2 files - Saved 150 Bytes (50.0%)''
   \<and> fst (fst (processGlbFiles sample_host Full ''Full'' (Inr [''/m/a.glb'', ''/m/b.glb'']) []))
       = summary exact_logIndex (mode_wording ''Full'')
           (snd (fst (processGlbFiles sample_host Full ''Full'' (Inr [''/m/a.glb'', ''/m/b.glb'']) [])))"
proof -
  let ?rs = "[succeeded ''a.glb'' 100 50, succeeded ''b.glb'' 200 100]"
  let ?z = "[succeeded ''e.glb'' 0 0]"
  let ?n = "[succeeded ''e.glb'' 0 7]"
  note t = percent_saved [where ?'w = "string list"]
  from t have c1: "\<forall>li wording (rs :: CompressionResult list). (\<forall>r \<in> set rs. success r) \<longrightarrow>
      summary li wording rs =
        check_mark @ '' '' @ fst wording @ show_nat (length rs) @ '' file'' @ plural (length rs)
          @ '' - Saved ''
          @ formatBytes li (int (\<Sum>r\<leftarrow>rs. size_or_zero (originalSize r))
                            - int (\<Sum>r\<leftarrow>rs. size_or_zero (compressedSize r)))
          @ '' (''
          @ js_toFixed 1
              (js_mul
                 (js_div (Fin (of_int (int (\<Sum>r\<leftarrow>rs. size_or_zero (originalSize r))
                                        - int (\<Sum>r\<leftarrow>rs. size_or_zero (compressedSize r)))))
                         (Fin (of_nat (\<Sum>r\<leftarrow>rs. size_or_zero (originalSize r)))))
                 (Fin 100))
          @ ''%)''" by (elim conjE)
  from t have c2: "\<forall>li wording x y.
        summary li wording [succeeded x 100 50, succeeded y 200 100]
          = check_mark @ '' '' @ fst wording @ ''2 files - Saved '' @ formatBytes li 150 @ '' (50.0%)''"
    by (elim conjE)
  from t have c3: "\<forall>li wording (rs :: CompressionResult list).
        (\<forall>r \<in> set rs. success r) \<and> (\<Sum>r\<leftarrow>rs. size_or_zero (originalSize r)) = 0 \<longrightarrow>
        summary li wording rs =
          check_mark @ '' '' @ fst wording @ show_nat (length rs) @ '' file'' @ plural (length rs)
            @ '' - Saved '' @ formatBytes li (- int (\<Sum>r\<leftarrow>rs. size_or_zero (compressedSize r)))
            @ '' (''
            @ (if (\<Sum>r\<leftarrow>rs. size_or_zero (compressedSize r)) = 0 then ''NaN'' else ''-Infinity'')
            @ ''%)''" by (elim conjE)
  from t have c4: "\<forall>(h :: string list host) v items w. filter is_glb items \<noteq> [] \<longrightarrow>
         fst (fst (handleSubmit h v (Inr items) w))
           = summary (logIndex h) advanced_wording (snd (fst (handleSubmit h v (Inr items) w)))"
    by (elim conjE)
  from t have c5: "\<forall>(h :: string list host) m modeName items w. filter is_glb items \<noteq> [] \<longrightarrow>
         fst (fst (processGlbFiles h m modeName (Inr items) w))
           = summary (logIndex h) (mode_wording modeName)
               (snd (fst (processGlbFiles h m modeName (Inr items) w)))"
    by (elim conjE)
  have s1: "success (succeeded ''a.glb'' 100 50)" and s2: "success (succeeded ''b.glb'' 200 100)"
    and s3: "success (succeeded ''e.glb'' 0 0)" and s4: "success (succeeded ''e.glb'' 0 7)"
    by (simp_all add: succeeded_def)
  from s1 s2 have all: "\<forall>r \<in> set ?rs. success r" by simp
  have two: "summary exact_logIndex advanced_wording ?rs
       = check_mark @ '' Optimized 2 files - Saved 150 Bytes (50.0%)''"
    unfolding c2 [rule_format] formatBytes_150 [OF exact_accurate]
    by (simp add: advanced_wording_def)
  have sums: "(\<Sum>r\<leftarrow>?rs. size_or_zero (originalSize r)) = 100 + 200"
    "(\<Sum>r\<leftarrow>?rs. size_or_zero (compressedSize r)) = 50 + 100"
    by (simp_all add: succeeded_def size_or_zero_def)
  from c1 [THEN spec [of _ exact_logIndex], THEN spec [of _ advanced_wording], THEN spec [of _ ?rs], THEN mp, OF all] two
  have "check_mark @ '' '' @ fst advanced_wording @ show_nat (length ?rs) @ '' file'' @ plural (length ?rs)
          @ '' - Saved '' @ formatBytes exact_logIndex (int (100 + 200) - int (50 + 100))
          @ '' (''
          @ js_toFixed 1 (js_mul (js_div (Fin (of_int (int (100 + 200) - int (50 + 100))))
                                  (Fin (of_nat (100 + 200)))) (Fin 100))
          @ ''%)''
       = check_mark @ '' Optimized 2 files - Saved 150 Bytes (50.0%)''"
    unfolding sums by simp
  moreover have "formatBytes exact_logIndex (int (100 + 200) - int (50 + 100)) = ''150 Bytes''"
    using formatBytes_150 [OF exact_accurate] by simp
  ultimately have pct: "js_toFixed 1 (js_mul (js_div (Fin (of_int (int (100 + 200) - int (50 + 100))))
                                  (Fin (of_nat (100 + 200)))) (Fin 100)) = ''50.0''"
    by (simp add: advanced_wording_def plural_def show_nat_small show_nat_two)
  have hz: "(\<forall>r \<in> set ?z. success r) \<and> (\<Sum>r\<leftarrow>?z. size_or_zero (originalSize r)) = 0"
    using s3 by (simp add: succeeded_def size_or_zero_def)
  have zero: "summary exact_logIndex advanced_wording ?z
       = check_mark @ '' Optimized 1 file - Saved 0 Bytes (NaN%)''"
    unfolding c3 [rule_format, OF hz]
    by (simp add: advanced_wording_def plural_def show_nat_small succeeded_def size_or_zero_def
        formatBytes_def)
  have hn: "(\<forall>r \<in> set ?n. success r) \<and> (\<Sum>r\<leftarrow>?n. size_or_zero (originalSize r)) = 0"
    using s4 by (simp add: succeeded_def size_or_zero_def)
  have minus: "summary exact_logIndex advanced_wording ?n
       = check_mark @ '' Optimized 1 file - Saved NaN undefined (-Infinity%)''"
    unfolding c3 [rule_format, OF hn]
    by (simp add: advanced_wording_def plural_def show_nat_small succeeded_def size_or_zero_def
        formatBytes_negative)
  have ne: "filter is_glb [''/m/a.glb'', ''/m/b.glb''] \<noteq> []" unfolding is_glb_ab by simp
  have rs: "snd (fst (handleSubmit sample_host sample_values (Inr [''/m/a.glb'', ''/m/b.glb'']) [])) = ?rs"
    unfolding handleSubmit_results [OF ne] is_glb_ab by (rule sample_two_files)
  have run: "fst (fst (handleSubmit sample_host sample_values (Inr [''/m/a.glb'', ''/m/b.glb'']) []))
       = check_mark @ '' Optimized 2 files - Saved 150 Bytes (50.0%)''"
    unfolding c4 [rule_format, OF ne] rs sample_log by (rule two)
  have modes: "fst (fst (processGlbFiles sample_host Full ''Full'' (Inr [''/m/a.glb'', ''/m/b.glb'']) []))
       = summary exact_logIndex (mode_wording ''Full'')
           (snd (fst (processGlbFiles sample_host Full ''Full'' (Inr [''/m/a.glb'', ''/m/b.glb'']) [])))"
    unfolding c5 [rule_format, OF ne] sample_log ..
  show ?thesis
    by (intro conjI s1 s2 two pct s3 zero minus ne run modes)
qed

end
